theory Spec2Isabelle
  imports Complex_Main "HOL-Library.Sublist"
begin

section \<open>Data model (types.ts)\<close>

text \<open>
  \<^verbatim>\<open>Player = 'X' | 'O'\<close>. The constructors carry the specification's names, since
  \<open>O\<close> is the library's infix for relation composition.
\<close>

datatype Player = MarkX | MarkO

text \<open>
  \<^verbatim>\<open>BoardState = (Player | null)[]\<close>: a cell is \<open>None\<close> for \<^verbatim>\<open>null\<close> and
  \<open>Some p\<close> for the mark \<open>p\<close>.
\<close>

type_synonym BoardState = "Player option list"

datatype Difficulty = Easy | Medium | Hard | Trained

record Scores =
  player :: nat
  ai :: nat
  draws :: nat

section \<open>JavaScript array reads\<close>

text \<open>
  \<^verbatim>\<open>xs[i]\<close> on a JavaScript array: the element inside the array, \<^verbatim>\<open>undefined\<close>
  outside. \<open>None\<close> stands for \<^verbatim>\<open>undefined\<close>. On a board, \<open>Some None\<close> is a
  \<^verbatim>\<open>null\<close> cell and \<open>Some (Some p)\<close> a marked one.
\<close>

definition elem :: "'a list \<Rightarrow> nat \<Rightarrow> 'a option" where
  "elem xs i = (if i < length xs then Some (xs ! i) else None)"

text \<open>The same read with a signed index, as \<^verbatim>\<open>Math.floor\<close> could produce.\<close>

definition elem_int :: "'a list \<Rightarrow> int \<Rightarrow> 'a option" where
  "elem_int xs i = (if 0 \<le> i then elem xs (nat i) else None)"

text \<open>
  Truthiness of a board read: \<^verbatim>\<open>undefined\<close> and \<^verbatim>\<open>null\<close> are falsy, the
  marks \<^verbatim>\<open>'X'\<close> and \<^verbatim>\<open>'O'\<close> are non-empty strings and truthy.
\<close>

fun truthy :: "Player option option \<Rightarrow> bool" where
  "truthy (Some (Some p)) = True"
| "truthy v = False"

section \<open>Winning lines (constants.ts)\<close>

text \<open>
  Modelled from the spec: the file constants.ts that declares
  \<^verbatim>\<open>WINNING_COMBINATIONS\<close> is not among the sources. The specification fixes the
  8 triples (3 rows, 3 columns, 2 diagonals) and their enumeration order (rows first,
  then columns, then diagonals).
\<close>

definition WINNING_COMBINATIONS :: "nat list list" where
  "WINNING_COMBINATIONS =
     [[0, 1, 2], [3, 4, 5], [6, 7, 8],
      [0, 3, 6], [1, 4, 7], [2, 5, 8],
      [0, 4, 8], [2, 4, 6]]"

section \<open>Win detection (services/geminiService.ts, checkWinner)\<close>

record WinnerInfo =
  winner :: Player
  line :: "nat list"

text \<open>
  The loop \<^verbatim>\<open>for (const combination of WINNING_COMBINATIONS)\<close> with
  \<^verbatim>\<open>const [a, b, c] = combination\<close> and the test
  \<^verbatim>\<open>board[a] && board[a] === board[b] && board[a] === board[c]\<close>; the first
  combination that passes is returned. A combination with fewer than three entries
  destructures to \<^verbatim>\<open>undefined\<close> indices, whose reads are falsy.
\<close>

fun checkWinner_from :: "nat list list \<Rightarrow> BoardState \<Rightarrow> WinnerInfo option" where
  "checkWinner_from [] board = None"
| "checkWinner_from (combination # rest) board =
     (case combination of
        a # b # c # _ \<Rightarrow>
          (case elem board a of
             Some (Some p) \<Rightarrow>
               if elem board a = elem board b \<and> elem board a = elem board c
               then Some \<lparr>winner = p, line = combination\<rparr>
               else checkWinner_from rest board
           | _ \<Rightarrow> checkWinner_from rest board)
      | _ \<Rightarrow> checkWinner_from rest board)"

definition checkWinner :: "BoardState \<Rightarrow> WinnerInfo option" where
  "checkWinner board = checkWinner_from WINNING_COMBINATIONS board"

section \<open>Heuristic move selector (findWinningMove, getMediumAIMove)\<close>

text \<open>
  \<^verbatim>\<open>for (let i = 0; i < 9; i++)\<close>: the first index whose cell is \<^verbatim>\<open>null\<close> and
  where placing the mark on a copy of the board makes \<^verbatim>\<open>checkWinner\<close> report that
  mark as the winner; \<^verbatim>\<open>null\<close> (\<open>None\<close>) when the loop ends.
\<close>

function findWinningMove_from :: "nat \<Rightarrow> BoardState \<Rightarrow> Player \<Rightarrow> nat option" where
  "findWinningMove_from i board plr =
     (if i < 9 then
        (if elem board i = Some None then
           (let tempBoard = board[i := Some plr];
                winnerInfo = checkWinner tempBoard
            in if (case winnerInfo of Some w \<Rightarrow> winner w = plr | None \<Rightarrow> False)
               then Some i
               else findWinningMove_from (Suc i) board plr)
         else findWinningMove_from (Suc i) board plr)
      else None)"
  by pat_completeness auto
termination
  by (relation "measure (\<lambda>(i, board, plr). 9 - i)") auto

definition findWinningMove :: "BoardState \<Rightarrow> Player \<Rightarrow> nat option" where
  "findWinningMove board plr = findWinningMove_from 0 board plr"

text \<open>
  \<^verbatim>\<open>xs[Math.floor(Math.random() * xs.length)]\<close>, with the value \<open>r\<close> that
  \<^verbatim>\<open>Math.random()\<close> returned as a parameter (the runtime draws it from \<open>[0, 1)\<close>).
  The product is taken exactly; the rounding of the double product can change which
  element is read (for \<open>r = 0.3333333333333333\<close> and three elements the double product
  is 1 and the exact one is below 1), never whether the index is inside the array.
\<close>

definition random_element :: "rat \<Rightarrow> 'a list \<Rightarrow> 'a option" where
  "random_element r xs = elem_int xs \<lfloor>r * of_nat (length xs)\<rfloor>"

text \<open>
  \<^verbatim>\<open>board.map((cell, index) => cell === null ? index : null).filter(i => i !== null)\<close>
\<close>

definition availableCells :: "BoardState \<Rightarrow> nat list" where
  "availableCells board =
     map the (filter (\<lambda>i. i \<noteq> None)
       (map (\<lambda>(index, cell). if cell = None then Some index else None)
            (enumerate 0 board)))"

text \<open>
  The priority chain. The result is \<open>None\<close> where the JavaScript returns
  \<^verbatim>\<open>undefined\<close> (the read \<^verbatim>\<open>availableCells[0]\<close> of an empty array).
\<close>

definition getMediumAIMove :: "BoardState \<Rightarrow> rat \<Rightarrow> nat option" where
  "getMediumAIMove board r =
     (case findWinningMove board MarkO of
        Some winningMove \<Rightarrow> Some winningMove
      | None \<Rightarrow>
     (case findWinningMove board MarkX of
        Some blockingMove \<Rightarrow> Some blockingMove
      | None \<Rightarrow>
     (let center = 4 in
      if elem board center = Some None then Some center
      else
        let corners = [0, 2, 6, 8];
            availableCorners = filter (\<lambda>i. elem board i = Some None) corners
        in if length availableCorners > 0 then random_element r availableCorners
           else
             let sides = [1, 3, 5, 7];
                 availableSides = filter (\<lambda>i. elem board i = Some None) sides
             in if length availableSides > 0 then random_element r availableSides
                else elem (availableCells board) 0)))"

section \<open>Training corpus (data/trainingData.ts)\<close>

record TrainingGame =
  seq_winner :: Player
  moves :: "nat list"

definition winningGameSequences :: "TrainingGame list" where
  "winningGameSequences =
     [\<lparr>seq_winner = MarkO, moves = [0, 4, 1, 2, 3, 6]\<rparr>,
      \<lparr>seq_winner = MarkO, moves = [8, 4, 2, 6, 5]\<rparr>,
      \<lparr>seq_winner = MarkO, moves = [0, 1, 4, 2, 8]\<rparr>,
      \<lparr>seq_winner = MarkO, moves = [2, 4, 5, 3, 8]\<rparr>,
      \<lparr>seq_winner = MarkO, moves = [6, 4, 7, 1, 8]\<rparr>,
      \<lparr>seq_winner = MarkO, moves = [0, 3, 4, 5, 8]\<rparr>,
      \<lparr>seq_winner = MarkO, moves = [2, 5, 4, 3, 6]\<rparr>,
      \<lparr>seq_winner = MarkX, moves = [4, 0, 1, 2, 7]\<rparr>,
      \<lparr>seq_winner = MarkX, moves = [4, 2, 7, 6, 1]\<rparr>,
      \<lparr>seq_winner = MarkX, moves = [0, 1, 2, 5, 4, 3, 8]\<rparr>,
      \<lparr>seq_winner = MarkX, moves = [0, 4, 3, 5, 6]\<rparr>,
      \<lparr>seq_winner = MarkX, moves = [2, 4, 1, 7, 0]\<rparr>,
      \<lparr>seq_winner = MarkX, moves = [8, 4, 0, 2, 1, 6]\<rparr>,
      \<lparr>seq_winner = MarkX, moves = [4, 8, 6, 7, 2]\<rparr>,
      \<lparr>seq_winner = MarkO, moves = [4, 0, 6, 3, 2]\<rparr>,
      \<lparr>seq_winner = MarkO, moves = [4, 8, 2, 5, 6]\<rparr>,
      \<lparr>seq_winner = MarkO, moves = [1, 4, 0, 8, 2]\<rparr>,
      \<lparr>seq_winner = MarkO, moves = [3, 4, 0, 8, 6]\<rparr>,
      \<lparr>seq_winner = MarkO, moves = [0, 2, 1, 3, 4, 5, 6, 7, 8]\<rparr>,
      \<lparr>seq_winner = MarkO, moves = [8, 7, 6, 5, 4, 3, 2, 1, 0]\<rparr>]"

section \<open>Training-example retrieval (getTrainedAIMove, the filter and slice)\<close>

text \<open>
  \<^verbatim>\<open>xs.every((x, index) => p(x, index))\<close>: the callback receives each element with
  its position.
\<close>

definition every :: "('a \<Rightarrow> nat \<Rightarrow> bool) \<Rightarrow> 'a list \<Rightarrow> bool" where
  "every p xs = list_all (\<lambda>(index, x). p x index) (enumerate 0 xs)"

text \<open>
  \<^verbatim>\<open>.filter(seq => moveHistory.every((move, index) => move === seq.moves[index]))\<close>
  followed by \<^verbatim>\<open>.slice(0, 3)\<close>, over a corpus given as a parameter. A read past the
  end of \<^verbatim>\<open>seq.moves\<close> is \<^verbatim>\<open>undefined\<close>, which no move equals.
\<close>

definition relevantExamples_in :: "TrainingGame list \<Rightarrow> nat list \<Rightarrow> TrainingGame list" where
  "relevantExamples_in corpus moveHistory =
     take 3 (filter (\<lambda>seq. every (\<lambda>move index. elem (moves seq) index = Some move) moveHistory)
                    corpus)"

definition relevantExamples :: "nat list \<Rightarrow> TrainingGame list" where
  "relevantExamples moveHistory = relevantExamples_in winningGameSequences moveHistory"

section \<open>The external reasoning service\<close>

text \<open>
  What a \<^verbatim>\<open>try\<close> block can throw here: the error of \<^verbatim>\<open>getAIInstance\<close>, a
  rejected service call, the \<^verbatim>\<open>SyntaxError\<close> of \<^verbatim>\<open>JSON.parse\<close>, and the
  \<^verbatim>\<open>TypeError\<close> of a property read on \<^verbatim>\<open>null\<close> or \<^verbatim>\<open>undefined\<close>.
\<close>

datatype error = ApiKeyNotSet | ServiceFailure | SyntaxError | TypeError

text \<open>Sequencing of statements that may throw, and \<^verbatim>\<open>try { ... } catch (error) { ... }\<close>.\<close>

definition and_then :: "error + 'a \<Rightarrow> ('a \<Rightarrow> error + 'b) \<Rightarrow> error + 'b" where
  "and_then m f = (case m of Inl e \<Rightarrow> Inl e | Inr v \<Rightarrow> f v)"

definition try_catch :: "error + 'a \<Rightarrow> (error \<Rightarrow> error + 'a) \<Rightarrow> error + 'a" where
  "try_catch body handler = (case body of Inl e \<Rightarrow> handler e | Inr v \<Rightarrow> Inr v)"

text \<open>
  The value \<^verbatim>\<open>JSON.parse\<close> returns. A number is the rational value of its double;
  a literal that overflows to an infinity fails the range test below like every finite
  number outside \<open>[0, 8]\<close>. An object is its list of members.
\<close>

datatype json =
    JNull
  | JBool bool
  | JNumber rat
  | JString string
  | JArray "json list"
  | JObject "(string \<times> json) list"

text \<open>
  The three prompts, each with the data it interpolates (the fixed wording, response
  schema and temperature belong to the constructor): the board text and move history,
  the retrieved examples for the Trained tier, the board text and the move for the
  commentary.
\<close>

datatype Request =
    HardPrompt string "nat list"
  | TrainedPrompt string "nat list" "TrainingGame list"
  | CommentaryPrompt string rat

text \<open>
  Everything outside the repository that a call depends on: the \<^verbatim>\<open>API_KEY\<close> of the
  process environment (\<open>None\<close> when unset), the awaited
  \<^verbatim>\<open>ai.models.generateContent\<close> (it rejects, or resolves to a response whose
  \<^verbatim>\<open>text\<close> is a string or \<^verbatim>\<open>undefined\<close>), \<^verbatim>\<open>JSON.parse\<close>, and the value
  of \<^verbatim>\<open>Math.random()\<close>.
\<close>

record Env =
  API_KEY :: "string option"
  generateContent :: "Request \<Rightarrow> error + string option"
  JSON_parse :: "string \<Rightarrow> error + json"
  random :: rat

text \<open>\<^verbatim>\<open>arr.join(sep)\<close> on strings.\<close>

fun join :: "string \<Rightarrow> string list \<Rightarrow> string" where
  "join sep [] = []"
| "join sep [x] = x"
| "join sep (x # y # ys) = x @ sep @ join sep (y # ys)"

text \<open>
  \<^verbatim>\<open>getBoardString\<close>: three rows \<^verbatim>\<open>board.slice(i, i + 3)\<close> for \<open>i = 0, 3, 6\<close>, each
  cell shown as its mark or a blank, a rule between rows.
\<close>

definition getBoardString :: "BoardState \<Rightarrow> string" where
  "getBoardString board =
     concat (map (\<lambda>i.
        join '' | '' (map (\<lambda>cell. case cell of Some MarkX \<Rightarrow> ''X'' | Some MarkO \<Rightarrow> ''O''
                                    | None \<Rightarrow> '' '')
                       (take 3 (drop i board)))
        @ (if i < 6 then [CHR 0x0A] @ ''---------'' @ [CHR 0x0A] else []))
       [0, 3, 6])"

text \<open>\<^verbatim>\<open>getAIInstance\<close>: throws when \<^verbatim>\<open>!API_KEY\<close> (unset, or the empty string).\<close>

definition getAIInstance :: "Env \<Rightarrow> error + string" where
  "getAIInstance env =
     (case API_KEY env of
        None \<Rightarrow> Inl ApiKeyNotSet
      | Some k \<Rightarrow> if k = [] then Inl ApiKeyNotSet else Inr k)"

text \<open>
  \<^verbatim>\<open>JSON.parse(response.text)\<close>: an \<^verbatim>\<open>undefined\<close> argument is converted to the
  string \<^verbatim>\<open>undefined\<close> before parsing.
\<close>

definition parse_text :: "Env \<Rightarrow> string option \<Rightarrow> error + json" where
  "parse_text env response_text =
     JSON_parse env (case response_text of Some t \<Rightarrow> t | None \<Rightarrow> ''undefined'')"

text \<open>
  \<^verbatim>\<open>jsonResponse.move\<close>: a \<^verbatim>\<open>TypeError\<close> on \<^verbatim>\<open>null\<close>, the member of an object
  (\<open>None\<close> for \<^verbatim>\<open>undefined\<close> when absent), \<^verbatim>\<open>undefined\<close> on every other value.
\<close>

fun move_property :: "json \<Rightarrow> error + json option" where
  "move_property JNull = Inl TypeError"
| "move_property (JObject members) = Inr (map_of members ''move'')"
| "move_property v = Inr None"

text \<open>
  \<^verbatim>\<open>board[move]\<close> for a number: an array element when the number is a non-negative
  integer, \<^verbatim>\<open>undefined\<close> otherwise (no such property).
\<close>

definition elem_num :: "'a list \<Rightarrow> rat \<Rightarrow> 'a option" where
  "elem_num xs q = (if of_int \<lfloor>q\<rfloor> = q then elem_int xs \<lfloor>q\<rfloor> else None)"

text \<open>
  \<^verbatim>\<open>typeof move === 'number' && move >= 0 && move <= 8 && board[move] === null\<close>
\<close>

fun move_is_valid :: "BoardState \<Rightarrow> json option \<Rightarrow> bool" where
  "move_is_valid board (Some (JNumber q)) =
     (0 \<le> q \<and> q \<le> 8 \<and> elem_num board q = Some None)"
| "move_is_valid board v = False"

text \<open>The number a validated \<^verbatim>\<open>move\<close> holds, as the function's return value.\<close>

fun as_number :: "json option \<Rightarrow> rat option" where
  "as_number (Some (JNumber q)) = Some q"
| "as_number v = None"

text \<open>
  A selector's result is a number or \<^verbatim>\<open>undefined\<close> (\<open>None\<close>); the heuristic
  selector's index is such a number.
\<close>

definition medium_number :: "BoardState \<Rightarrow> rat \<Rightarrow> rat option" where
  "medium_number board r = map_option of_nat (getMediumAIMove board r)"

section \<open>Remote-assisted move selectors (getHardAIMove, getTrainedAIMove)\<close>

definition getHardAIMove :: "Env \<Rightarrow> BoardState \<Rightarrow> nat list \<Rightarrow> error + rat option" where
  "getHardAIMove env board moveHistory =
     try_catch
       (and_then (getAIInstance env) (\<lambda>ai.
        and_then (generateContent env (HardPrompt (getBoardString board) moveHistory)) (\<lambda>response.
        and_then (parse_text env response) (\<lambda>jsonResponse.
        and_then (move_property jsonResponse) (\<lambda>move.
          if move_is_valid board move then Inr (as_number move)
          else Inr (medium_number board (random env)))))))
       (\<lambda>error. Inr (medium_number board (random env)))"

definition getTrainedAIMove :: "Env \<Rightarrow> BoardState \<Rightarrow> nat list \<Rightarrow> error + rat option" where
  "getTrainedAIMove env board moveHistory =
     try_catch
       (and_then (getAIInstance env) (\<lambda>ai.
        and_then (generateContent env
                    (TrainedPrompt (getBoardString board) moveHistory
                       (relevantExamples moveHistory))) (\<lambda>response.
        and_then (parse_text env response) (\<lambda>jsonResponse.
        and_then (move_property jsonResponse) (\<lambda>move.
          if move_is_valid board move then Inr (as_number move)
          else Inr (medium_number board (random env)))))))
       (\<lambda>error. Inr (medium_number board (random env)))"

section \<open>Commentary (getAICommentary)\<close>

text \<open>
  \<^verbatim>\<open>response.text.replace(/"/g, '')\<close>: the global flag removes every double quote
  (code 0x22). The call throws a \<^verbatim>\<open>TypeError\<close> when \<^verbatim>\<open>response.text\<close> is
  \<^verbatim>\<open>undefined\<close>.
\<close>

definition remove_quotes :: "string option \<Rightarrow> error + string" where
  "remove_quotes response_text =
     (case response_text of
        None \<Rightarrow> Inl TypeError
      | Some t \<Rightarrow> Inr (filter (\<lambda>c. c \<noteq> CHR 0x22) t))"

definition getAICommentary :: "Env \<Rightarrow> BoardState \<Rightarrow> rat \<Rightarrow> error + string" where
  "getAICommentary env board aiMove =
     try_catch
       (and_then (getAIInstance env) (\<lambda>ai.
        and_then (generateContent env (CommentaryPrompt (getBoardString board) aiMove))
          remove_quotes))
       (\<lambda>error. Inr ''Thinking...'')"

section \<open>Game state (App.tsx)\<close>

text \<open>The state variables of the \<^verbatim>\<open>App\<close> component.\<close>

record Game =
  board :: BoardState
  isPlayerTurn :: bool
  winnerInfo :: "WinnerInfo option"
  isDraw :: bool
  difficulty :: Difficulty
  scores :: Scores
  gamesPlayed :: nat
  isDifficultyModalOpen :: bool
  aiCommentary :: string
  isAiThinking :: bool
  moveHistory :: "nat list"
  isDarkMode :: bool

text \<open>
  The state at mount; difficulty, scores, games played and theme come from local
  storage (or their defaults) and are parameters.
\<close>

definition initialGame :: "Difficulty \<Rightarrow> Scores \<Rightarrow> nat \<Rightarrow> bool \<Rightarrow> Game" where
  "initialGame d sc played dark =
     \<lparr>board = replicate 9 None, isPlayerTurn = True, winnerInfo = None, isDraw = False,
      difficulty = d, scores = sc, gamesPlayed = played, isDifficultyModalOpen = False,
      aiCommentary = [], isAiThinking = False, moveHistory = [], isDarkMode = dark\<rparr>"

text \<open>
  \<^verbatim>\<open>checkGameStatus\<close>: the same loop over \<^verbatim>\<open>WINNING_COMBINATIONS\<close> as
  \<^verbatim>\<open>checkWinner\<close>; on the first completed line it records the winner, adds one to
  that side's score and sets the commentary, and returns. Otherwise, when
  \<^verbatim>\<open>currentBoard.every(cell => cell !== null)\<close>, it records the draw. The score
  update \<^verbatim>\<open>setScores(s => ...)\<close> is applied to the scores of the state it is given;
  the setter of the storage hook computes from the scores of the render that created
  the handler, which are the same unless a game has ended since. No property below
  mentions a score value.
\<close>

definition checkGameStatus :: "BoardState \<Rightarrow> Game \<Rightarrow> Game" where
  "checkGameStatus currentBoard s =
     (case checkWinner_from WINNING_COMBINATIONS currentBoard of
        Some w \<Rightarrow>
          s\<lparr>winnerInfo := Some w,
            scores := (if winner w = MarkX
                       then (scores s)\<lparr>player := player (scores s) + 1\<rparr>
                       else (scores s)\<lparr>ai := ai (scores s) + 1\<rparr>),
            aiCommentary := (if winner w = MarkX then ''You got lucky...''
                             else ''Victory is mine!'')\<rparr>
      | None \<Rightarrow>
          if list_all (\<lambda>cell. cell \<noteq> None) currentBoard
          then s\<lparr>isDraw := True,
                 scores := (scores s)\<lparr>draws := draws (scores s) + 1\<rparr>,
                 aiCommentary := ''A worthy opponent. It's a draw!''\<rparr>
          else s)"

definition restartGame :: "Game \<Rightarrow> Game" where
  "restartGame s =
     s\<lparr>board := replicate 9 None, isPlayerTurn := True, winnerInfo := None, isDraw := False,
       gamesPlayed := gamesPlayed s + 1, aiCommentary := [], isAiThinking := False,
       moveHistory := []\<rparr>"

text \<open>
  \<^verbatim>\<open>handleCellClick\<close>. It is bound to the rendered cells only
  (\<^verbatim>\<open>board.map((cell, index) => ...)\<close>), so \<open>index\<close> is below the length of the
  board and the write \<^verbatim>\<open>newBoard[index] = 'X'\<close> stays inside the array.
\<close>

definition handleCellClick :: "nat \<Rightarrow> Game \<Rightarrow> Game" where
  "handleCellClick index s =
     (if truthy (elem (board s) index) \<or> winnerInfo s \<noteq> None \<or> isDraw s \<or> \<not> isPlayerTurn s
      then s
      else
        let newBoard = (board s)[index := Some MarkX]
        in checkGameStatus newBoard
             (s\<lparr>board := newBoard, moveHistory := moveHistory s @ [index],
                isPlayerTurn := False\<rparr>))"

text \<open>
  The outcome the interface derives from the state (\<^verbatim>\<open>statusText\<close> tests
  \<^verbatim>\<open>winnerInfo\<close> first, then \<^verbatim>\<open>isDraw\<close>).
\<close>

datatype GameOutcome = InProgress | Win Player "nat list" | Draw

definition outcome :: "Game \<Rightarrow> GameOutcome" where
  "outcome s =
     (case winnerInfo s of
        Some w \<Rightarrow> Win (winner w) (line w)
      | None \<Rightarrow> if isDraw s then Draw else InProgress)"

section \<open>The asynchronous AI turn (aiMove)\<close>

text \<open>
  \<^verbatim>\<open>aiMove\<close> is an \<^verbatim>\<open>async\<close> function: it runs up to its first \<^verbatim>\<open>await\<close>,
  and the rest runs in a later turn of the event loop, after other handlers may have
  run. What the suspended call keeps is its arguments and the \<^verbatim>\<open>difficulty\<close> of the
  closure.
\<close>

record SuspendedMove =
  currentBoard :: BoardState
  currentMoveHistory :: "nat list"
  moveDifficulty :: Difficulty

text \<open>
  The synchronous first part: the two state updates, and the early return when
  \<^verbatim>\<open>availableCells.length === 0\<close>. The result is the new state and the suspended call,
  if any.
\<close>

definition aiMove_begin :: "BoardState \<Rightarrow> nat list \<Rightarrow> Game \<Rightarrow> Game \<times> SuspendedMove option" where
  "aiMove_begin cb hist s =
     (let s1 = s\<lparr>isAiThinking := True, aiCommentary := ''Hmm, let me think...''\<rparr>
      in if length (availableCells cb) = 0
         then (s1\<lparr>isAiThinking := False\<rparr>, None)
         else (s1, Some \<lparr>currentBoard = cb, currentMoveHistory = hist,
                         moveDifficulty = difficulty s\<rparr>))"

text \<open>The \<^verbatim>\<open>switch (difficulty)\<close>; the result is a number or \<^verbatim>\<open>undefined\<close>.\<close>

definition selectMove :: "Env \<Rightarrow> SuspendedMove \<Rightarrow> error + rat option" where
  "selectMove env t =
     (case moveDifficulty t of
        Easy \<Rightarrow>
          Inr (map_option of_nat (random_element (random env) (availableCells (currentBoard t))))
      | Medium \<Rightarrow> Inr (medium_number (currentBoard t) (random env))
      | Hard \<Rightarrow> getHardAIMove env (currentBoard t) (currentMoveHistory t)
      | Trained \<Rightarrow> getTrainedAIMove env (currentBoard t) (currentMoveHistory t))"

text \<open>\<^verbatim>\<open>currentBoard[move]\<close> where \<^verbatim>\<open>move\<close> may be \<^verbatim>\<open>undefined\<close>.\<close>

definition elem_move :: "BoardState \<Rightarrow> rat option \<Rightarrow> Player option option" where
  "elem_move cb mv = (case mv of None \<Rightarrow> None | Some q \<Rightarrow> elem_num cb q)"

text \<open>
  The part after the awaits, on the state as it is when the call resumes. Inside the
  guard \<^verbatim>\<open>currentBoard[move] === null\<close> the number is an index of the array. An error
  out of a selector or the commentary would reject the promise with no state update;
  the state updates all follow the last \<^verbatim>\<open>await\<close>.
\<close>

definition aiMove_resume :: "Env \<Rightarrow> SuspendedMove \<Rightarrow> Game \<Rightarrow> Game" where
  "aiMove_resume env t s =
     (case selectMove env t of
        Inl e \<Rightarrow> s
      | Inr mv \<Rightarrow>
          if elem_move (currentBoard t) mv = Some None then
            (let q = the mv;
                 index = nat \<lfloor>q\<rfloor>;
                 newBoard = (currentBoard t)[index := Some MarkO]
             in case (if moveDifficulty t = Hard \<or> moveDifficulty t = Trained
                      then getAICommentary env newBoard q else Inr []) of
                  Inl e \<Rightarrow> s
                | Inr commentary \<Rightarrow>
                    (checkGameStatus newBoard
                       (s\<lparr>aiCommentary := commentary, board := newBoard,
                          moveHistory := moveHistory s @ [index]\<rparr>))
                    \<lparr>isPlayerTurn := True, isAiThinking := False\<rparr>)
          else s\<lparr>isAiThinking := False\<rparr>)"

section \<open>Events\<close>

text \<open>
  A configuration is the component state with the suspended \<^verbatim>\<open>aiMove\<close> calls. The
  events are the handlers the interface can run: a click on cell \<open>i\<close>, the restart
  button, the difficulty dialog (opened, closed, a level chosen), the theme toggle, and
  the resumption of a suspended \<^verbatim>\<open>aiMove\<close> (the \<open>k\<close>-th pending one) in an
  environment. A click exists for the rendered cells only, and every handler is followed
  by the effect.
\<close>

record Config =
  game :: Game
  pending :: "SuspendedMove list"

datatype Event =
    Click nat
  | Restart
  | OpenDifficultyDialog
  | CloseDifficultyDialog
  | ChooseDifficulty Difficulty
  | ToggleDarkMode
  | AiMoveResumes nat Env

text \<open>
  The effect with dependencies \<^verbatim>\<open>[isPlayerTurn, winnerInfo, isDraw, board]\<close>: after a
  render in which one of them changed, it calls \<^verbatim>\<open>aiMove(board, moveHistory)\<close> when
  \<^verbatim>\<open>!isPlayerTurn && !winnerInfo && !isDraw\<close>. It has no cleanup function.
\<close>

definition useEffect_aiMove :: "Game \<Rightarrow> Config \<Rightarrow> Config" where
  "useEffect_aiMove before c =
     (let s = game c in
      if (isPlayerTurn s, winnerInfo s, isDraw s, board s)
           \<noteq> (isPlayerTurn before, winnerInfo before, isDraw before, board before)
         \<and> \<not> isPlayerTurn s \<and> winnerInfo s = None \<and> \<not> isDraw s
      then (case aiMove_begin (board s) (moveHistory s) s of
              (s', None) \<Rightarrow> c\<lparr>game := s'\<rparr>
            | (s', Some t) \<Rightarrow> c\<lparr>game := s', pending := pending c @ [t]\<rparr>)
      else c)"

fun exec :: "Event \<Rightarrow> Config \<Rightarrow> Config" where
  "exec (Click i) c =
     (if i < length (board (game c))
      then useEffect_aiMove (game c) (c\<lparr>game := handleCellClick i (game c)\<rparr>)
      else c)"
| "exec Restart c = useEffect_aiMove (game c) (c\<lparr>game := restartGame (game c)\<rparr>)"
| "exec OpenDifficultyDialog c =
     useEffect_aiMove (game c) (c\<lparr>game := (game c)\<lparr>isDifficultyModalOpen := True\<rparr>\<rparr>)"
| "exec CloseDifficultyDialog c =
     useEffect_aiMove (game c) (c\<lparr>game := (game c)\<lparr>isDifficultyModalOpen := False\<rparr>\<rparr>)"
| "exec ToggleDarkMode c =
     useEffect_aiMove (game c) (c\<lparr>game := (game c)\<lparr>isDarkMode := \<not> isDarkMode (game c)\<rparr>\<rparr>)"
| "exec (ChooseDifficulty level) c =
     useEffect_aiMove (game c)
       (c\<lparr>game := restartGame ((game c)\<lparr>difficulty := level, isDifficultyModalOpen := False\<rparr>)\<rparr>)"
| "exec (AiMoveResumes k env) c =
     (if k < length (pending c)
      then useEffect_aiMove (game c)
             (c\<lparr>game := aiMove_resume env (pending c ! k) (game c),
                pending := take k (pending c) @ drop (Suc k) (pending c)\<rparr>)
      else c)"

text \<open>A run of events from a configuration, first event first.\<close>

fun run :: "Event list \<Rightarrow> Config \<Rightarrow> Config" where
  "run [] c = c"
| "run (e # es) c = run es (exec e c)"

text \<open>
  The configuration at mount, and the one of a first visit (nothing stored but,
  possibly, the difficulty).
\<close>

definition startConfig :: "Difficulty \<Rightarrow> Scores \<Rightarrow> nat \<Rightarrow> bool \<Rightarrow> Config" where
  "startConfig d sc played dark = \<lparr>game = initialGame d sc played dark, pending = []\<rparr>"

definition initialConfig :: "Difficulty \<Rightarrow> Config" where
  "initialConfig d = startConfig d \<lparr>player = 0, ai = 0, draws = 0\<rparr> 0 False"

section \<open>Notions the properties are stated with\<close>

text \<open>
  Placing the mark \<open>plr\<close> at the Empty cell \<open>i\<close> makes the evaluator report a win
  for \<open>plr\<close>.
\<close>

definition wins_for :: "BoardState \<Rightarrow> Player \<Rightarrow> nat \<Rightarrow> bool" where
  "wins_for b plr i =
     (elem b i = Some None \<and>
      (case checkWinner (b[i := Some plr]) of Some w \<Rightarrow> winner w = plr | None \<Rightarrow> False))"

text \<open>A line is won by a mark when all three of its cells hold that mark.\<close>

fun line_complete :: "BoardState \<Rightarrow> nat list \<Rightarrow> Player \<Rightarrow> bool" where
  "line_complete b (i # j # k # rest) plr =
     (elem b i = Some (Some plr) \<and> elem b j = Some (Some plr) \<and> elem b k = Some (Some plr))"
| "line_complete b l plr = False"

definition is_complete :: "BoardState \<Rightarrow> nat list \<Rightarrow> bool" where
  "is_complete b l = (line_complete b l MarkX \<or> line_complete b l MarkO)"

text \<open>The lines a mark has completed on a board, in enumeration order.\<close>

definition completed_lines :: "BoardState \<Rightarrow> Player \<Rightarrow> nat list list" where
  "completed_lines b plr = filter (\<lambda>l. line_complete b l plr) WINNING_COMBINATIONS"

text \<open>All cells of the board are non-Empty.\<close>

definition board_full :: "BoardState \<Rightarrow> bool" where
  "board_full b = list_all (\<lambda>cell. cell \<noteq> None) b"


text \<open>
  The contract of a remote-assisted selector whose request is \<open>req\<close> and whose result
  is \<open>res\<close>, stated on what the environment gives (the key, the reply to the request,
  the parser's verdict on the reply text) and on \<open>getMediumAIMove\<close> itself:
  \<^item> the selector returns a value;
  \<^item> the value is the heuristic selector's result on the same board, or an index in
    \<open>[0, 8]\<close> of an Empty cell;
  \<^item> a missing or empty key, a rejected call, a reply text the parser rejects (an absent
    text is parsed as the string \<^verbatim>\<open>undefined\<close>), a parsed value that is not an object
    with a numeric member \<^verbatim>\<open>move\<close>, a number that is not an integer of \<open>[0, 8]\<close>, and
    a target cell that is occupied or outside the board each give the heuristic
    selector's result on the same board;
  \<^item> with a key, a reply whose \<^verbatim>\<open>move\<close> is an integer of \<open>[0, 8]\<close> with an Empty
    cell is returned as it is.
\<close>

definition remote_contract :: "Env \<Rightarrow> BoardState \<Rightarrow> Request \<Rightarrow> error + rat option \<Rightarrow> bool" where
  "remote_contract env b req res =
     (let heuristic = Inr (map_option of_nat (getMediumAIMove b (random env))) in
      (\<exists>v. res = Inr v) \<and>
      (res = heuristic \<or>
        (\<exists>i<9. i < length b \<and> b ! i = None \<and> res = Inr (Some (of_nat i)))) \<and>
      (API_KEY env = None \<or> API_KEY env = Some [] \<longrightarrow> res = heuristic) \<and>
      (\<forall>e. generateContent env req = Inl e \<longrightarrow> res = heuristic) \<and>
      (\<forall>txt t e. generateContent env req = Inr txt \<and>
          t = (case txt of Some s \<Rightarrow> s | None \<Rightarrow> ''undefined'') \<and>
          JSON_parse env t = Inl e
          \<longrightarrow> res = heuristic) \<and>
      (\<forall>txt t j. generateContent env req = Inr txt \<and>
          t = (case txt of Some s \<Rightarrow> s | None \<Rightarrow> ''undefined'') \<and>
          JSON_parse env t = Inr j \<and>
          \<not> (\<exists>members q. j = JObject members \<and> map_of members ''move'' = Some (JNumber q))
          \<longrightarrow> res = heuristic) \<and>
      (\<forall>txt t members q. generateContent env req = Inr txt \<and>
          t = (case txt of Some s \<Rightarrow> s | None \<Rightarrow> ''undefined'') \<and>
          JSON_parse env t = Inr (JObject members) \<and>
          map_of members ''move'' = Some (JNumber q) \<and> \<not> (\<exists>i<9. q = of_nat i)
          \<longrightarrow> res = heuristic) \<and>
      (\<forall>txt t members i. generateContent env req = Inr txt \<and>
          t = (case txt of Some s \<Rightarrow> s | None \<Rightarrow> ''undefined'') \<and>
          JSON_parse env t = Inr (JObject members) \<and>
          map_of members ''move'' = Some (JNumber (of_nat i)) \<and>
          \<not> (i < length b \<and> b ! i = None)
          \<longrightarrow> res = heuristic) \<and>
      (\<forall>k txt t members i. API_KEY env = Some k \<and> k \<noteq> [] \<and>
          generateContent env req = Inr txt \<and>
          t = (case txt of Some s \<Rightarrow> s | None \<Rightarrow> ''undefined'') \<and>
          JSON_parse env t = Inr (JObject members) \<and>
          map_of members ''move'' = Some (JNumber (of_nat i)) \<and> i < 9 \<and>
          i < length b \<and> b ! i = None
          \<longrightarrow> res = Inr (Some (of_nat i))))"

text \<open>
  The history records the board: as many entries as non-Empty cells, pairwise distinct,
  each an index in \<open>[0, 8]\<close>, the cell of an even position holding X and of an odd
  position holding O.
\<close>

definition history_records_board :: "Game \<Rightarrow> bool" where
  "history_records_board s =
     (length (moveHistory s) = length (filter (\<lambda>cell. cell \<noteq> None) (board s)) \<and>
      distinct (moveHistory s) \<and>
      list_all (\<lambda>i. i < 9) (moveHistory s) \<and>
      list_all (\<lambda>(k, i). elem (board s) i = Some (Some (if even k then MarkX else MarkO)))
               (enumerate 0 (moveHistory s)))"

text \<open>Every mark of the board \<open>b\<close> is still in place on the board \<open>b'\<close>.\<close>

definition marks_kept :: "BoardState \<Rightarrow> BoardState \<Rightarrow> bool" where
  "marks_kept b b' =
     list_all (\<lambda>(i, cell). cell = None \<or> elem b' i = Some cell) (enumerate 0 b)"

text \<open>The configurations a game can be in: those a run of events reaches from the start.\<close>

definition reachable :: "Config \<Rightarrow> bool" where
  "reachable c = (\<exists>d sc played dark es. c = run es (startConfig d sc played dark))"

text \<open>
  A run that never restarts the game (by the button or by a choice of difficulty) while
  an AI move is suspended.
\<close>

fun restarts_game :: "Event \<Rightarrow> bool" where
  "restarts_game Restart = True"
| "restarts_game (ChooseDifficulty level) = True"
| "restarts_game e = False"

fun race_free :: "Event list \<Rightarrow> Config \<Rightarrow> bool" where
  "race_free [] c = True"
| "race_free (e # es) c =
     ((if restarts_game e then pending c = [] else True) \<and> race_free es (exec e c))"

text \<open>
  The state and the suspended AI move are in step: the board has 9 cells and the
  history records it; the history is even when it is the player's turn; and at most one
  AI move is suspended, on the current board, after an odd number of moves, while it is
  not the player's turn.
\<close>

definition in_step :: "Config \<Rightarrow> bool" where
  "in_step c =
     (length (board (game c)) = 9 \<and> history_records_board (game c) \<and>
      (if isPlayerTurn (game c) then even (length (moveHistory (game c))) else True) \<and>
      (pending c = [] \<or>
       (\<exists>t. pending c = [t] \<and> currentBoard t = board (game c) \<and>
            \<not> isPlayerTurn (game c) \<and> odd (length (moveHistory (game c))))))"

section \<open>Example inputs\<close>

text \<open>X holds the top row and the left column; the board is full.\<close>

definition two_line_board :: BoardState where
  "two_line_board =
     [Some MarkX, Some MarkX, Some MarkX,
      Some MarkX, Some MarkO, Some MarkO,
      Some MarkX, Some MarkO, Some MarkO]"

text \<open>The specification's example of an immediate win for O at cell 2.\<close>

definition win_in_one_board :: BoardState where
  "win_in_one_board =
     [Some MarkO, Some MarkO, None,
      Some MarkX, Some MarkX, None,
      None, None, None]"

text \<open>The specification's example of a block: X threatens the top row at cell 2.\<close>

definition block_board :: BoardState where
  "block_board =
     [Some MarkX, Some MarkX, None,
      Some MarkO, None, None,
      None, None, None]"

text \<open>
  The specification's end-to-end example: X holds the diagonal 0-4-8 with two cells
  still Empty.
\<close>

definition diagonal_board :: BoardState where
  "diagonal_board =
     [Some MarkX, Some MarkO, Some MarkX,
      Some MarkO, Some MarkX, Some MarkO,
      None, None, Some MarkX]"

text \<open>A full board with no completed line, and a board in progress.\<close>

definition drawn_board :: BoardState where
  "drawn_board =
     [Some MarkX, Some MarkO, Some MarkX,
      Some MarkX, Some MarkO, Some MarkO,
      Some MarkO, Some MarkX, Some MarkX]"

definition opening_board :: BoardState where
  "opening_board =
     [Some MarkX, None, None,
      None, None, None,
      None, None, None]"

text \<open>The empty board, and the board after a first click on the centre.\<close>

definition empty_board :: BoardState where
  "empty_board = [None, None, None, None, None, None, None, None, None]"

definition centre_board :: BoardState where
  "centre_board =
     [None, None, None,
      None, Some MarkX, None,
      None, None, None]"

text \<open>
  The board a suspended AI move computes from \<open>opening_board\<close> (its answer is the
  centre).
\<close>

definition stale_board :: BoardState where
  "stale_board =
     [Some MarkX, None, None,
      None, Some MarkO, None,
      None, None, None]"

text \<open>
  An environment with no service credentials, where the remote tiers fall back, and
  one whose service answers every request with a fixed text that parses to a fixed
  value.
\<close>

definition offline_env :: Env where
  "offline_env =
     \<lparr>API_KEY = None, generateContent = (\<lambda>req. Inl ServiceFailure),
      JSON_parse = (\<lambda>t. Inl SyntaxError), random = 0\<rparr>"

definition answering_env :: "string \<Rightarrow> json \<Rightarrow> Env" where
  "answering_env t j =
     \<lparr>API_KEY = Some ''key'', generateContent = (\<lambda>req. Inr (Some t)),
      JSON_parse = (\<lambda>t. Inr j), random = 0\<rparr>"

text \<open>The reply text \<^verbatim>\<open>{"move": n}\<close> for the digits \<open>n\<close>, and the value it parses to.\<close>

definition move_reply_text :: "string \<Rightarrow> string" where
  "move_reply_text n = ''{'' @ [CHR 0x22] @ ''move'' @ [CHR 0x22] @ '': '' @ n @ ''}''"

definition move_reply :: "rat \<Rightarrow> json" where
  "move_reply q = JObject [(''move'', JNumber q)]"


text \<open>
  Two runs in which the player restarts while an AI move is suspended (in its 750 ms
  delay or in a service call), and the suspended move then resumes: in the second the
  player has already clicked the centre of the new game.
\<close>

definition restart_while_thinking :: "Event list" where
  "restart_while_thinking = [Click 0, Restart, AiMoveResumes 0 offline_env]"

definition restart_and_click_while_thinking :: "Event list" where
  "restart_and_click_while_thinking = [Click 0, Restart, Click 4]"

section \<open>Evaluation on concrete boards\<close>

lemma list_update_Cons_numeral:
  "(x # xs)[numeral v := y] = x # xs[numeral v - 1 := y]"
  by (simp add: numeral_eq_Suc)

lemma below_nine_cases:
  "i < (9::nat) \<longleftrightarrow>
     i = 0 \<or> i = 1 \<or> i = 2 \<or> i = 3 \<or> i = 4 \<or> i = 5 \<or> i = 6 \<or> i = 7 \<or> i = 8"
  by arith

lemma ex_below_nine:
  "(\<exists>i<9. P i) \<longleftrightarrow>
     P (0::nat) \<or> P 1 \<or> P 2 \<or> P 3 \<or> P 4 \<or> P 5 \<or> P 6 \<or> P 7 \<or> P 8"
  unfolding below_nine_cases by blast

lemma all_below_nine:
  "(\<forall>i<9. P i) \<longleftrightarrow>
     P (0::nat) \<and> P 1 \<and> P 2 \<and> P 3 \<and> P 4 \<and> P 5 \<and> P 6 \<and> P 7 \<and> P 8"
  unfolding below_nine_cases by blast


section \<open>The evaluator\<close>

lemma line_complete_exclusive:
  "line_complete b l MarkX \<Longrightarrow> line_complete b l MarkO \<Longrightarrow> False"
  by (cases "(b, l, MarkX)" rule: line_complete.cases) auto

lemma checkWinner_from_step:
  "checkWinner_from (l # rest) b =
     (if line_complete b l MarkX then Some \<lparr>winner = MarkX, line = l\<rparr>
      else if line_complete b l MarkO then Some \<lparr>winner = MarkO, line = l\<rparr>
      else checkWinner_from rest b)"
proof (cases "(b, l, MarkX)" rule: line_complete.cases)
  case (1 b' i j k rest' plr)
  then have l: "l = i # j # k # rest'" by simp
  show ?thesis
  proof (cases "elem b i")
    case None
    then show ?thesis using l by simp
  next
    case (Some cell)
    show ?thesis
    proof (cases cell)
      case None
      then show ?thesis using l Some by simp
    next
      case (Some p)
      then show ?thesis using l \<open>elem b i = Some cell\<close>
        by (cases p) auto
    qed
  qed
qed simp_all

text \<open>
  From here on a concrete board is evaluated line by line through
  \<open>checkWinner_from_step\<close>.
\<close>

declare checkWinner_from.simps(2) [simp del]

lemmas eval_board =
  wins_for_def checkWinner_def WINNING_COMBINATIONS_def elem_def list_update_Cons_numeral
  checkWinner_from_step

lemma checkWinner_from_find:
  "checkWinner_from cs b =
     (case find (is_complete b) cs of
        None \<Rightarrow> None
      | Some l \<Rightarrow> Some \<lparr>winner = (if line_complete b l MarkX then MarkX else MarkO), line = l\<rparr>)"
proof (induction cs)
  case Nil
  show ?case by simp
next
  case (Cons l rest)
  show ?case
  proof (cases "is_complete b l")
    case True
    then show ?thesis
      unfolding checkWinner_from_step by (auto simp: is_complete_def)
  next
    case False
    then have "\<not> line_complete b l MarkX" "\<not> line_complete b l MarkO"
      by (simp_all add: is_complete_def)
    then show ?thesis
      unfolding checkWinner_from_step using False Cons.IH by simp
  qed
qed

lemma checkWinner_None_iff:
  "checkWinner b = None \<longleftrightarrow> (\<forall>l \<in> set WINNING_COMBINATIONS. \<not> is_complete b l)"
proof -
  have "checkWinner b = None \<longleftrightarrow> find (is_complete b) WINNING_COMBINATIONS = None"
    unfolding checkWinner_def checkWinner_from_find by (simp split: option.splits)
  then show ?thesis by (auto simp: find_None_iff)
qed

lemma line_complete_mark:
  "line_complete b l m \<Longrightarrow> (if line_complete b l MarkX then MarkX else MarkO) = m"
  using line_complete_exclusive[of b l] by (cases m) auto

lemma board_full_nth: "board_full b \<longleftrightarrow> (\<forall>i<length b. b ! i \<noteq> None)"
  by (simp add: board_full_def list_all_length)

lemma outcome_win:
  "checkWinner b = Some w \<Longrightarrow>
     outcome (checkGameStatus b s) = Win (winner w) (line w) \<and>
     isDraw (checkGameStatus b s) = isDraw s \<and> board (checkGameStatus b s) = board s"
  by (simp add: checkGameStatus_def checkWinner_def outcome_def)

lemma outcome_no_win:
  "checkWinner b = None \<Longrightarrow> winnerInfo s = None \<Longrightarrow> \<not> isDraw s \<Longrightarrow>
     outcome (checkGameStatus b s) = (if board_full b then Draw else InProgress) \<and>
     board (checkGameStatus b s) = board s"
  by (simp add: checkGameStatus_def checkWinner_def outcome_def board_full_def)

text \<open>
  Claim C4, as stated, fails: "the evaluator reports the completed line the board
  contains" is false for a board with two completed lines. On the full board where X
  holds the top row and the left column, the left column \<open>[0, 3, 6]\<close> is a completed
  line of X (and no line of O is complete), yet the evaluator reports the top row
  \<open>[0, 1, 2]\<close>. A game reaches this board when X plays cell 0 last.
\<close>

theorem evaluator_line_counterexample:
  "completed_lines two_line_board MarkX = [[0, 1, 2], [0, 3, 6]] \<and>
   completed_lines two_line_board MarkO = [] \<and>
   line_complete two_line_board [0, 3, 6] MarkX \<and>
   checkWinner two_line_board = Some \<lparr>winner = MarkX, line = [0, 1, 2]\<rparr> \<and>
   checkWinner two_line_board \<noteq> Some \<lparr>winner = MarkX, line = [0, 3, 6]\<rparr> \<and>
   outcome (checkGameStatus two_line_board (game (initialConfig Medium))) = Win MarkX [0, 1, 2] \<and>
   outcome (checkGameStatus two_line_board (game (initialConfig Medium))) \<noteq> Win MarkX [0, 3, 6]"
proof -
  have cw: "checkWinner two_line_board = Some \<lparr>winner = MarkX, line = [0, 1, 2]\<rparr>"
    by (simp add: eval_board two_line_board_def)
  have "outcome (checkGameStatus two_line_board (game (initialConfig Medium))) = Win MarkX [0, 1, 2]"
    using outcome_win[OF cw] by simp
  moreover have "completed_lines two_line_board MarkX = [[0, 1, 2], [0, 3, 6]]"
    by (simp add: completed_lines_def WINNING_COMBINATIONS_def two_line_board_def elem_def)
  moreover have "completed_lines two_line_board MarkO = []"
    by (simp add: completed_lines_def WINNING_COMBINATIONS_def two_line_board_def elem_def)
  moreover have "line_complete two_line_board [0, 3, 6] MarkX"
    by (simp add: two_line_board_def elem_def)
  ultimately show ?thesis using cw by simp
qed

text \<open>
  Claim C4, amended. For every board that contains a completed line of the mark \<open>m\<close>
  and no completed line of the other mark, the evaluator (\<^verbatim>\<open>checkWinner\<close>, and
  \<^verbatim>\<open>checkGameStatus\<close> through the state) reports a win of \<open>m\<close> with the first
  completed line in the enumeration order of the 8 triples; that is the given line
  whenever it is the only completed one. No draw is recorded, whether the board is full
  or not.
\<close>

theorem evaluator_reports_first_completed_line:
  assumes l: "l \<in> set WINNING_COMBINATIONS"
    and complete: "line_complete b l m"
    and single: "\<forall>l' \<in> set WINNING_COMBINATIONS. \<forall>p. line_complete b l' p \<longrightarrow> p = m"
  shows "\<exists>first. find (is_complete b) WINNING_COMBINATIONS = Some first \<and>
           line_complete b first m \<and>
           checkWinner b = Some \<lparr>winner = m, line = first\<rparr> \<and>
           outcome (checkGameStatus b s) = Win m first \<and>
           isDraw (checkGameStatus b s) = isDraw s \<and>
           ((\<forall>l' \<in> set WINNING_COMBINATIONS. is_complete b l' \<longrightarrow> l' = l) \<longrightarrow> first = l)"
proof -
  have "is_complete b l" using complete by (cases m) (simp_all add: is_complete_def)
  then obtain first where first: "find (is_complete b) WINNING_COMBINATIONS = Some first"
    using l by (cases "find (is_complete b) WINNING_COMBINATIONS") (auto simp: find_None_iff)
  then have mem: "first \<in> set WINNING_COMBINATIONS" and fc: "is_complete b first"
    by (auto simp: find_Some_iff)
  have fm: "line_complete b first m"
    using fc single mem unfolding is_complete_def by blast
  have cw: "checkWinner b = Some \<lparr>winner = m, line = first\<rparr>"
    unfolding checkWinner_def checkWinner_from_find using first line_complete_mark[OF fm] by simp
  show ?thesis
    using first fm cw outcome_win[OF cw, of s] mem fc by auto
qed

theorem evaluator_reports_first_completed_line_witness:
  "[0, 4, 8] \<in> set WINNING_COMBINATIONS \<and>
   line_complete diagonal_board [0, 4, 8] MarkX \<and>
   list_all (\<lambda>l. \<not> line_complete diagonal_board l MarkO) WINNING_COMBINATIONS \<and>
   checkWinner diagonal_board = Some \<lparr>winner = MarkX, line = [0, 4, 8]\<rparr> \<and>
   outcome (checkGameStatus diagonal_board (game (initialConfig Medium))) = Win MarkX [0, 4, 8]"
proof -
  have l: "[0, 4, 8] \<in> set WINNING_COMBINATIONS" by (simp add: WINNING_COMBINATIONS_def)
  have complete: "line_complete diagonal_board [0, 4, 8] MarkX"
    by (simp add: diagonal_board_def elem_def)
  have noO: "list_all (\<lambda>l. \<not> line_complete diagonal_board l MarkO) WINNING_COMBINATIONS"
    by (simp add: WINNING_COMBINATIONS_def diagonal_board_def elem_def)
  have single: "\<forall>l' \<in> set WINNING_COMBINATIONS. \<forall>p. line_complete diagonal_board l' p \<longrightarrow> p = MarkX"
  proof (intro ballI allI impI)
    fix l' p
    assume "l' \<in> set WINNING_COMBINATIONS" "line_complete diagonal_board l' p"
    then show "p = MarkX" using noO by (cases p) (auto simp: list_all_iff)
  qed
  have only: "\<forall>l' \<in> set WINNING_COMBINATIONS. is_complete diagonal_board l' \<longrightarrow> l' = [0, 4, 8]"
    by (simp add: WINNING_COMBINATIONS_def diagonal_board_def elem_def is_complete_def)
  from evaluator_reports_first_completed_line[OF l complete single,
      of "game (initialConfig Medium)"] only
  have "checkWinner diagonal_board = Some \<lparr>winner = MarkX, line = [0, 4, 8]\<rparr> \<and>
        outcome (checkGameStatus diagonal_board (game (initialConfig Medium))) = Win MarkX [0, 4, 8]"
    by auto
  then show ?thesis using l complete noO by simp
qed

text \<open>
  Claim C5. For every board of 9 cells with no completed line, evaluated in a game
  that is not yet finished, the evaluator reports a draw exactly when all 9 cells are
  non-Empty and leaves the game in progress otherwise; the board of the state is
  unchanged.
\<close>

theorem evaluator_draw_or_in_progress:
  assumes len: "length b = 9"
    and none: "\<forall>l \<in> set WINNING_COMBINATIONS. \<not> is_complete b l"
    and fresh: "winnerInfo s = None" "\<not> isDraw s"
  shows "checkWinner b = None \<and>
         outcome (checkGameStatus b s) = (if (\<forall>i<9. b ! i \<noteq> None) then Draw else InProgress) \<and>
         board (checkGameStatus b s) = board s"
proof -
  have cw: "checkWinner b = None" using none by (simp add: checkWinner_None_iff)
  have "board_full b \<longleftrightarrow> (\<forall>i<9. b ! i \<noteq> None)" using len by (simp add: board_full_nth)
  then show ?thesis using cw outcome_no_win[OF cw fresh] by simp
qed

theorem evaluator_draw_or_in_progress_witness:
  "length drawn_board = 9 \<and>
   list_all (\<lambda>l. \<not> is_complete drawn_board l) WINNING_COMBINATIONS \<and>
   outcome (checkGameStatus drawn_board (game (initialConfig Medium))) = Draw \<and>
   length opening_board = 9 \<and>
   list_all (\<lambda>l. \<not> is_complete opening_board l) WINNING_COMBINATIONS \<and>
   outcome (checkGameStatus opening_board (game (initialConfig Medium))) = InProgress"
proof -
  let ?s = "game (initialConfig Medium)"
  have fresh: "winnerInfo ?s = None" "\<not> isDraw ?s"
    by (simp_all add: initialConfig_def startConfig_def initialGame_def)
  have len1: "length drawn_board = 9" by (simp add: drawn_board_def)
  have none1: "list_all (\<lambda>l. \<not> is_complete drawn_board l) WINNING_COMBINATIONS"
    by (simp add: WINNING_COMBINATIONS_def drawn_board_def elem_def is_complete_def)
  have full1: "\<forall>i<9. drawn_board ! i \<noteq> None"
    by (simp add: all_below_nine drawn_board_def)
  have len2: "length opening_board = 9" by (simp add: opening_board_def)
  have none2: "list_all (\<lambda>l. \<not> is_complete opening_board l) WINNING_COMBINATIONS"
    by (simp add: WINNING_COMBINATIONS_def opening_board_def elem_def is_complete_def)
  have open2: "\<not> (\<forall>i<9. opening_board ! i \<noteq> None)"
    by (simp add: all_below_nine opening_board_def)
  have "outcome (checkGameStatus drawn_board ?s) = Draw"
    using evaluator_draw_or_in_progress[OF len1 _ fresh] none1 full1
    by (simp add: list_all_iff)
  moreover have "outcome (checkGameStatus opening_board ?s) = InProgress"
    using evaluator_draw_or_in_progress[OF len2 _ fresh] none2 open2
    by (simp add: list_all_iff)
  ultimately show ?thesis using len1 none1 len2 none2 by simp
qed

section \<open>The heuristic selector\<close>

declare findWinningMove_from.simps [simp del]

lemma findWinningMove_from_unfold:
  "findWinningMove_from i b plr =
     (if i < 9 then (if wins_for b plr i then Some i else findWinningMove_from (Suc i) b plr)
      else None)"
  by (subst findWinningMove_from.simps) (simp add: wins_for_def Let_def)

lemma findWinningMove_from_Some:
  "findWinningMove_from i b plr = Some m \<Longrightarrow>
     i \<le> m \<and> m < 9 \<and> wins_for b plr m \<and> (\<forall>j. i \<le> j \<and> j < m \<longrightarrow> \<not> wins_for b plr j)"
proof (induction "9 - i" arbitrary: i)
  case 0
  then have "\<not> i < 9" by simp
  then have "findWinningMove_from i b plr = None"
    by (subst findWinningMove_from_unfold) simp
  with "0.prems" show ?case by simp
next
  case (Suc k)
  then have nine: "i < 9" by simp
  show ?case
  proof (cases "wins_for b plr i")
    case True
    then have "findWinningMove_from i b plr = Some i"
      using nine by (subst findWinningMove_from_unfold) simp
    with Suc.prems True nine show ?thesis by auto
  next
    case False
    then have "findWinningMove_from i b plr = findWinningMove_from (Suc i) b plr"
      using nine by (subst findWinningMove_from_unfold) simp
    then have nxt: "findWinningMove_from (Suc i) b plr = Some m" using Suc.prems by simp
    have "k = 9 - Suc i" using Suc.hyps(2) by simp
    from Suc.hyps(1)[OF this nxt]
    have ih: "Suc i \<le> m \<and> m < 9 \<and> wins_for b plr m \<and>
              (\<forall>j. Suc i \<le> j \<and> j < m \<longrightarrow> \<not> wins_for b plr j)" .
    have "\<not> wins_for b plr j" if "i \<le> j" "j < m" for j
    proof (cases "j = i")
      case True then show ?thesis using False by simp
    next
      case False
      then have "Suc i \<le> j" using that(1) by simp
      then show ?thesis using ih that(2) by simp
    qed
    then show ?thesis using ih by auto
  qed
qed

lemma findWinningMove_from_None:
  "findWinningMove_from i b plr = None \<Longrightarrow> i \<le> j \<Longrightarrow> j < 9 \<Longrightarrow> \<not> wins_for b plr j"
proof (induction "9 - i" arbitrary: i)
  case 0
  then show ?case by simp
next
  case (Suc k)
  then have nine: "i < 9" by simp
  have unf: "(if wins_for b plr i then Some i else findWinningMove_from (Suc i) b plr) = None"
    using Suc.prems(1) nine by (subst (asm) findWinningMove_from_unfold) simp
  then have nw: "\<not> wins_for b plr i" by (auto split: if_splits)
  with unf have nxt: "findWinningMove_from (Suc i) b plr = None" by simp
  show ?case
  proof (cases "j = i")
    case True then show ?thesis using nw by simp
  next
    case False
    then have le: "Suc i \<le> j" using Suc.prems(2) by simp
    have "k = 9 - Suc i" using Suc.hyps(2) by simp
    from Suc.hyps(1)[OF this nxt le Suc.prems(3)] show ?thesis .
  qed
qed

lemma random_element_member:
  assumes "0 \<le> r" "r < 1" "xs \<noteq> []"
  shows "\<exists>x \<in> set xs. random_element r xs = Some x"
proof -
  let ?n = "length xs"
  have pos: "0 < ?n" using assms(3) by simp
  have lo: "0 \<le> \<lfloor>r * of_nat ?n\<rfloor>" using assms(1) by simp
  have "r * of_nat ?n < of_nat ?n" using assms(2) pos by simp
  then have hi: "\<lfloor>r * of_nat ?n\<rfloor> < int ?n"
    by (simp add: floor_less_iff)
  then have "nat \<lfloor>r * of_nat ?n\<rfloor> < ?n" using lo by linarith
  then show ?thesis using lo
    by (auto simp: random_element_def elem_int_def elem_def)
qed


lemma findWinningMove_Some:
  "findWinningMove b plr = Some m \<Longrightarrow>
     m < 9 \<and> wins_for b plr m \<and> (\<forall>j<m. \<not> wins_for b plr j)"
  using findWinningMove_from_Some[of 0 b plr m] by (simp add: findWinningMove_def)

lemma findWinningMove_None:
  "findWinningMove b plr = None \<Longrightarrow> j < 9 \<Longrightarrow> \<not> wins_for b plr j"
  using findWinningMove_from_None[of 0 b plr j] by (simp add: findWinningMove_def)

lemma findWinningMove_exists:
  assumes "i < 9" "wins_for b plr i"
  shows "\<exists>m. findWinningMove b plr = Some m"
proof (cases "findWinningMove b plr")
  case None
  from findWinningMove_None[OF None assms(1)] assms(2) show ?thesis by simp
next
  case (Some m)
  then show ?thesis by simp
qed

lemma wins_for_empty: "wins_for b plr m \<Longrightarrow> m < length b \<and> b ! m = None"
  by (auto simp: wins_for_def elem_def split: if_splits)

lemma below_nine: "i < (9::nat) \<Longrightarrow> i = 4 \<or> i \<in> set [0, 2, 6, 8] \<or> i \<in> set [1, 3, 5, 7]"
  by (simp; arith)

lemma random_element_filter:
  assumes "0 \<le> r" "r < 1" "filter P xs \<noteq> []"
  shows "\<exists>x. random_element r (filter P xs) = Some x \<and> x \<in> set xs \<and> P x"
  using random_element_member[OF assms] by auto

text \<open>
  Claim C2. For every board of 9 cells with at least one Empty cell, and every value
  of \<^verbatim>\<open>Math.random()\<close> in \<open>[0, 1)\<close>, the heuristic selector returns an index in
  \<open>[0, 8]\<close> whose cell is Empty: the chain never falls through to \<^verbatim>\<open>undefined\<close>.
\<close>

theorem getMediumAIMove_returns_empty_cell:
  assumes len: "length b = 9"
    and empty: "\<exists>i<9. b ! i = None"
    and r: "0 \<le> r" "r < 1"
  shows "\<exists>m. getMediumAIMove b r = Some m \<and> m < 9 \<and> b ! m = None"
proof (cases "findWinningMove b MarkO")
  case (Some m)
  then have "getMediumAIMove b r = Some m" by (simp add: getMediumAIMove_def)
  then show ?thesis using findWinningMove_Some[OF Some] wins_for_empty[of b MarkO m] by simp
next
  case noO: None
  show ?thesis
  proof (cases "findWinningMove b MarkX")
    case (Some m)
    then have "getMediumAIMove b r = Some m" using noO by (simp add: getMediumAIMove_def)
    then show ?thesis using findWinningMove_Some[OF Some] wins_for_empty[of b MarkX m] by simp
  next
    case noX: None
    show ?thesis
    proof (cases "elem b 4 = Some None")
      case True
      then have "getMediumAIMove b r = Some 4" using noO noX by (simp add: getMediumAIMove_def)
      then show ?thesis using True len by (simp add: elem_def)
    next
      case noCenter: False
      let ?free = "\<lambda>i. elem b i = Some None"
      show ?thesis
      proof (cases "filter ?free [0, 2, 6, 8] = []")
        case False
        then have "getMediumAIMove b r = random_element r (filter ?free [0, 2, 6, 8])"
          using noO noX noCenter by (simp add: getMediumAIMove_def Let_def)
        moreover obtain x where "random_element r (filter ?free [0, 2, 6, 8]) = Some x"
          "x \<in> set [0, 2, 6, 8]" "?free x"
          using random_element_filter[OF r False] by blast
        ultimately show ?thesis using len by (auto simp: elem_def)
      next
        case noCorner: True
        show ?thesis
        proof (cases "filter ?free [1, 3, 5, 7] = []")
          case False
          then have "getMediumAIMove b r = random_element r (filter ?free [1, 3, 5, 7])"
            using noO noX noCenter noCorner by (simp add: getMediumAIMove_def Let_def)
          moreover obtain x where "random_element r (filter ?free [1, 3, 5, 7]) = Some x"
            "x \<in> set [1, 3, 5, 7]" "?free x"
            using random_element_filter[OF r False] by blast
          ultimately show ?thesis using len by (auto simp: elem_def)
        next
          case noSide: True
          from empty obtain i where i: "i < 9" "b ! i = None" by blast
          then have free: "?free i" using len by (simp add: elem_def)
          from below_nine[OF i(1)] have False
          proof (elim disjE)
            assume "i = 4" then show False using free noCenter by simp
          next
            assume "i \<in> set [0, 2, 6, 8]"
            then show False using free noCorner unfolding filter_empty_conv by blast
          next
            assume "i \<in> set [1, 3, 5, 7]"
            then show False using free noSide unfolding filter_empty_conv by blast
          qed
          then show ?thesis ..
        qed
      qed
    qed
  qed
qed

theorem getMediumAIMove_returns_empty_cell_witness:
  "length opening_board = 9 \<and> (\<exists>i<9. opening_board ! i = None) \<and>
   (\<exists>m. getMediumAIMove opening_board (1 / 2) = Some m \<and> m < 9 \<and> opening_board ! m = None)"
proof -
  have len: "length opening_board = 9" by (simp add: opening_board_def)
  have empty: "\<exists>i<9. opening_board ! i = None"
    by (simp add: ex_below_nine opening_board_def)
  have r: "(0::rat) \<le> 1 / 2" "(1::rat) / 2 < 1" by simp_all
  from getMediumAIMove_returns_empty_cell[OF len empty r] len empty show ?thesis by simp
qed

text \<open>
  On a board with no completed line, the evaluator reports a win for the mark placed
  exactly when the placement completes one of the 8 lines with that mark.
\<close>

lemma elem_update:
  "elem (b[i := v]) a = (if a = i \<and> i < length b then Some v else elem b a)"
  by (auto simp: elem_def)

lemma line_complete_elsewhere:
  assumes "line_complete (b[i := Some plr]) l p" "p \<noteq> plr"
  shows "line_complete b l p"
proof -
  have "\<exists>i1 i2 i3 rest. l = i1 # i2 # i3 # rest"
    using assms(1) by (cases "(b[i := Some plr], l, p)" rule: line_complete.cases) simp_all
  then obtain i1 i2 i3 rest where l: "l = i1 # i2 # i3 # rest" by blast
  have "elem b a = Some (Some p)" if "elem (b[i := Some plr]) a = Some (Some p)" for a
    using that assms(2) by (auto simp: elem_update split: if_splits)
  then show ?thesis using assms(1) unfolding l by simp
qed

lemma wins_for_completes_line:
  assumes none: "\<forall>l \<in> set WINNING_COMBINATIONS. \<not> is_complete b l"
  shows "wins_for b plr i \<longleftrightarrow>
         elem b i = Some None \<and>
         (\<exists>l \<in> set WINNING_COMBINATIONS. line_complete (b[i := Some plr]) l plr)"
proof -
  let ?b' = "b[i := Some plr]"
  have only_plr: "line_complete ?b' l plr"
    if mem: "l \<in> set WINNING_COMBINATIONS" and c: "is_complete ?b' l" for l
  proof (rule ccontr)
    assume no: "\<not> line_complete ?b' l plr"
    from c obtain p where p: "line_complete ?b' l p"
      unfolding is_complete_def by blast
    with no have "p \<noteq> plr" by blast
    from line_complete_elsewhere[OF p this] have "is_complete b l"
      by (cases p) (simp_all add: is_complete_def)
    with none mem show False by blast
  qed
  have "(case checkWinner ?b' of Some w \<Rightarrow> winner w = plr | None \<Rightarrow> False) \<longleftrightarrow>
        (\<exists>l \<in> set WINNING_COMBINATIONS. line_complete ?b' l plr)"
  proof (cases "find (is_complete ?b') WINNING_COMBINATIONS")
    case None
    then have "checkWinner ?b' = None"
      by (simp add: checkWinner_def checkWinner_from_find)
    moreover have "\<not> line_complete ?b' l plr" if "l \<in> set WINNING_COMBINATIONS" for l
    proof
      assume "line_complete ?b' l plr"
      then have "is_complete ?b' l" by (cases plr) (simp_all add: is_complete_def)
      with None that show False by (auto simp: find_None_iff)
    qed
    ultimately show ?thesis by auto
  next
    case (Some l)
    then have mem: "l \<in> set WINNING_COMBINATIONS" and c: "is_complete ?b' l"
      by (auto simp: find_Some_iff)
    from only_plr[OF mem c] have lc: "line_complete ?b' l plr" .
    have "checkWinner ?b' = Some \<lparr>winner = plr, line = l\<rparr>"
      using Some line_complete_mark[OF lc] by (simp add: checkWinner_def checkWinner_from_find)
    then show ?thesis using mem lc by auto
  qed
  then show ?thesis by (simp add: wins_for_def)
qed

text \<open>
  Claim C3. The priority chain, in order: if placing O at some Empty cell makes the
  evaluator report a win for O, the selector returns the first such cell of the scan
  0..8; otherwise, if placing X at some Empty cell makes the evaluator report a win for
  X, it returns the first such cell; otherwise, if the centre cell 4 is Empty, it
  returns 4. "Completes a win" is the evaluator's verdict on the board with the mark
  placed; on a board with no completed line (every board of a game in progress) that is
  the same as completing one of the 8 lines with the mark.
\<close>

theorem getMediumAIMove_priority_chain:
  "((\<exists>i<9. wins_for b MarkO i) \<longrightarrow>
      (\<exists>m<9. getMediumAIMove b r = Some m \<and> wins_for b MarkO m \<and>
             (\<forall>j<m. \<not> wins_for b MarkO j))) \<and>
   (\<not> (\<exists>i<9. wins_for b MarkO i) \<and> (\<exists>i<9. wins_for b MarkX i) \<longrightarrow>
      (\<exists>m<9. getMediumAIMove b r = Some m \<and> wins_for b MarkX m \<and>
             (\<forall>j<m. \<not> wins_for b MarkX j))) \<and>
   (\<not> (\<exists>i<9. wins_for b MarkO i) \<and> \<not> (\<exists>i<9. wins_for b MarkX i) \<and>
      elem b 4 = Some None \<longrightarrow> getMediumAIMove b r = Some 4) \<and>
   ((\<forall>l \<in> set WINNING_COMBINATIONS. \<not> is_complete b l) \<longrightarrow>
      (\<forall>plr i. wins_for b plr i \<longleftrightarrow>
         elem b i = Some None \<and>
         (\<exists>l \<in> set WINNING_COMBINATIONS. line_complete (b[i := Some plr]) l plr)))"
proof (intro conjI impI)
  assume "\<forall>l \<in> set WINNING_COMBINATIONS. \<not> is_complete b l"
  then show "\<forall>plr i. wins_for b plr i \<longleftrightarrow>
         elem b i = Some None \<and>
         (\<exists>l \<in> set WINNING_COMBINATIONS. line_complete (b[i := Some plr]) l plr)"
    using wins_for_completes_line by blast
next
  assume "\<exists>i<9. wins_for b MarkO i"
  then obtain m where m: "findWinningMove b MarkO = Some m"
    using findWinningMove_exists by blast
  then have "getMediumAIMove b r = Some m" by (simp add: getMediumAIMove_def)
  then show "\<exists>m<9. getMediumAIMove b r = Some m \<and> wins_for b MarkO m \<and>
             (\<forall>j<m. \<not> wins_for b MarkO j)"
    using findWinningMove_Some[OF m] by simp
next
  assume a: "\<not> (\<exists>i<9. wins_for b MarkO i) \<and> (\<exists>i<9. wins_for b MarkX i)"
  have noO: "findWinningMove b MarkO = None"
  proof (cases "findWinningMove b MarkO")
    case (Some m)
    from findWinningMove_Some[OF Some] a show ?thesis by blast
  qed simp
  from a obtain m where m: "findWinningMove b MarkX = Some m"
    using findWinningMove_exists by blast
  then have "getMediumAIMove b r = Some m" using noO by (simp add: getMediumAIMove_def)
  then show "\<exists>m<9. getMediumAIMove b r = Some m \<and> wins_for b MarkX m \<and>
             (\<forall>j<m. \<not> wins_for b MarkX j)"
    using findWinningMove_Some[OF m] by simp
next
  assume a: "\<not> (\<exists>i<9. wins_for b MarkO i) \<and> \<not> (\<exists>i<9. wins_for b MarkX i) \<and>
      elem b 4 = Some None"
  have noO: "findWinningMove b MarkO = None"
  proof (cases "findWinningMove b MarkO")
    case (Some m)
    from findWinningMove_Some[OF Some] a show ?thesis by blast
  qed simp
  have noX: "findWinningMove b MarkX = None"
  proof (cases "findWinningMove b MarkX")
    case (Some m)
    from findWinningMove_Some[OF Some] a show ?thesis by blast
  qed simp
  show "getMediumAIMove b r = Some 4" using noO noX a by (simp add: getMediumAIMove_def)
qed


theorem getMediumAIMove_priority_chain_witness:
  "getMediumAIMove win_in_one_board 0 = Some 2 \<and>
   getMediumAIMove block_board 0 = Some 2 \<and>
   getMediumAIMove opening_board 0 = Some 4 \<and>
   (\<exists>l \<in> set WINNING_COMBINATIONS. line_complete (win_in_one_board[2 := Some MarkO]) l MarkO)"
proof (intro conjI)
  have none: "\<forall>l \<in> set WINNING_COMBINATIONS. \<not> is_complete win_in_one_board l"
    by (simp add: WINNING_COMBINATIONS_def win_in_one_board_def elem_def is_complete_def)
  have "wins_for win_in_one_board MarkO 2"
    by (simp add: eval_board win_in_one_board_def)
  with getMediumAIMove_priority_chain[of win_in_one_board 0] none
  show "\<exists>l \<in> set WINNING_COMBINATIONS.
          line_complete (win_in_one_board[2 := Some MarkO]) l MarkO"
    by blast
next
  note chain = getMediumAIMove_priority_chain[of win_in_one_board 0]
  have win: "wins_for win_in_one_board MarkO 2"
    by (simp add: eval_board win_in_one_board_def)
  then have "\<exists>i<9. wins_for win_in_one_board MarkO i" by (intro exI[of _ 2]) simp
  with chain obtain m where m: "getMediumAIMove win_in_one_board 0 = Some m"
    "wins_for win_in_one_board MarkO m" "\<forall>j<m. \<not> wins_for win_in_one_board MarkO j"
    by blast
  have cell: "win_in_one_board ! m = None" using wins_for_empty[OF m(2)] by simp
  have "m \<noteq> 0"
  proof
    assume "m = 0"
    with cell show False by (simp add: win_in_one_board_def)
  qed
  moreover have "m \<noteq> 1"
  proof
    assume "m = 1"
    with cell show False by (simp add: win_in_one_board_def)
  qed
  moreover have "\<not> 2 < m" using m(3) win by blast
  ultimately have "m = 2" by arith
  with m(1) show "getMediumAIMove win_in_one_board 0 = Some 2" by simp
next
  note chain = getMediumAIMove_priority_chain[of block_board 0]
  have noO: "\<not> (\<exists>i<9. wins_for block_board MarkO i)"
    by (simp add: ex_below_nine eval_board block_board_def)
  have block: "wins_for block_board MarkX 2"
    by (simp add: eval_board block_board_def)
  then have "\<exists>i<9. wins_for block_board MarkX i" by (intro exI[of _ 2]) simp
  with chain noO obtain m where m: "getMediumAIMove block_board 0 = Some m"
    "wins_for block_board MarkX m" "\<forall>j<m. \<not> wins_for block_board MarkX j"
    by blast
  have cell: "block_board ! m = None" using wins_for_empty[OF m(2)] by simp
  have "m \<noteq> 0"
  proof
    assume "m = 0"
    with cell show False by (simp add: block_board_def)
  qed
  moreover have "m \<noteq> 1"
  proof
    assume "m = 1"
    with cell show False by (simp add: block_board_def)
  qed
  moreover have "\<not> 2 < m" using m(3) block by blast
  ultimately have "m = 2" by arith
  with m(1) show "getMediumAIMove block_board 0 = Some 2" by simp
next
  note chain = getMediumAIMove_priority_chain[of opening_board 0]
  have noO: "\<not> (\<exists>i<9. wins_for opening_board MarkO i)"
    by (simp add: ex_below_nine eval_board opening_board_def)
  have noX: "\<not> (\<exists>i<9. wins_for opening_board MarkX i)"
    by (simp add: ex_below_nine eval_board opening_board_def)
  have centre: "elem opening_board 4 = Some None"
    by (simp add: elem_def opening_board_def)
  from chain noO noX centre show "getMediumAIMove opening_board 0 = Some 4" by blast
qed

section \<open>The heuristic selector on the example boards\<close>

lemma findWinningMove_None_iff:
  "findWinningMove b plr = None \<longleftrightarrow> \<not> (\<exists>i<9. wins_for b plr i)"
  using findWinningMove_Some[of b plr] findWinningMove_exists[of _ b plr]
  by (cases "findWinningMove b plr") auto

lemma getMediumAIMove_opening: "getMediumAIMove opening_board r = Some 4"
proof -
  have "findWinningMove opening_board MarkO = None"
    unfolding findWinningMove_None_iff
    by (simp add: ex_below_nine eval_board opening_board_def)
  moreover have "findWinningMove opening_board MarkX = None"
    unfolding findWinningMove_None_iff
    by (simp add: ex_below_nine eval_board opening_board_def)
  moreover have "elem opening_board 4 = Some None"
    by (simp add: elem_def opening_board_def)
  ultimately show ?thesis by (simp add: getMediumAIMove_def)
qed

lemma findWinningMove_least:
  assumes "m < 9" "wins_for b plr m" "\<forall>j<m. \<not> wins_for b plr j"
  shows "findWinningMove b plr = Some m"
proof -
  from findWinningMove_exists[OF assms(1,2)] obtain m' where m': "findWinningMove b plr = Some m'"
    by blast
  from findWinningMove_Some[OF m'] have w: "wins_for b plr m'" and least: "\<forall>j<m'. \<not> wins_for b plr j"
    by simp_all
  have "\<not> m' < m" using assms(3) w by blast
  moreover have "\<not> m < m'" using least assms(2) by blast
  ultimately have "m' = m" by arith
  with m' show ?thesis by simp
qed

lemma getMediumAIMove_block: "getMediumAIMove block_board r = Some 2"
proof -
  have "findWinningMove block_board MarkO = None"
    unfolding findWinningMove_None_iff
    by (simp add: ex_below_nine eval_board block_board_def)
  moreover have "findWinningMove block_board MarkX = Some 2"
  proof (rule findWinningMove_least)
    show "(2::nat) < 9" by simp
    show "wins_for block_board MarkX 2" by (simp add: eval_board block_board_def)
    have "\<not> wins_for block_board MarkX 0" "\<not> wins_for block_board MarkX 1"
      by (simp_all add: wins_for_def elem_def block_board_def)
    then show "\<forall>j<2. \<not> wins_for block_board MarkX j"
      by (auto simp: less_Suc_eq numeral_2_eq_2)
  qed
  ultimately show ?thesis by (simp add: getMediumAIMove_def)
qed

section \<open>The training-example retriever\<close>

lemma every_positions:
  "every p xs \<longleftrightarrow> (\<forall>n<length xs. p (xs ! n) n)"
  by (simp add: every_def list_all_length nth_enumerate_eq)

lemma prefix_positions:
  "prefix xs ys \<longleftrightarrow> length xs \<le> length ys \<and> (\<forall>n<length xs. ys ! n = xs ! n)"
proof
  assume "prefix xs ys"
  then obtain zs where "ys = xs @ zs" by (auto simp: prefix_def)
  then show "length xs \<le> length ys \<and> (\<forall>n<length xs. ys ! n = xs ! n)"
    by (simp add: nth_append)
next
  assume a: "length xs \<le> length ys \<and> (\<forall>n<length xs. ys ! n = xs ! n)"
  then have "take (length xs) ys = xs"
    by (intro nth_equalityI) simp_all
  then show "prefix xs ys"
    by (metis take_is_prefix)
qed

lemma every_is_prefix:
  "every (\<lambda>move index. elem ys index = Some move) xs \<longleftrightarrow> prefix xs ys"
proof -
  have "every (\<lambda>move index. elem ys index = Some move) xs \<longleftrightarrow>
        (\<forall>n<length xs. n < length ys \<and> ys ! n = xs ! n)"
    by (auto simp: every_positions elem_def split: if_splits)
  also have "\<dots> \<longleftrightarrow> length xs \<le> length ys \<and> (\<forall>n<length xs. ys ! n = xs ! n)"
  proof (cases "length xs \<le> length ys")
    case True
    then show ?thesis by auto
  next
    case False
    then have "length ys < length xs" by simp
    then show ?thesis by auto
  qed
  finally show ?thesis by (simp add: prefix_positions)
qed

lemma relevantExamples_in_filter:
  "relevantExamples_in corpus h = take 3 (filter (\<lambda>seq. prefix h (moves seq)) corpus)"
  by (simp add: relevantExamples_in_def every_is_prefix)

lemma subseq_take_filter: "subseq (take n (filter P xs)) xs"
proof -
  have "subseq (take n (filter P xs)) (filter P xs)"
    by (metis append_take_drop_id subseq_order.order_refl list_emb_prefix)
  then show ?thesis
    using subseq_filter_left subseq_order.trans by blast
qed

text \<open>
  Claim C6. For every corpus and every move history, the retriever returns at most 3
  entries: the first 3, in corpus order, of the entries whose move sequence has the
  history as an exact positional prefix. Every returned entry is an entry of the corpus,
  is at least as long as the history and agrees with it at every position of the
  history; when no entry matches, the result is empty. The corpus is an argument that
  is only read.
\<close>

theorem relevantExamples_first_three_prefix_matches:
  "length (relevantExamples_in corpus h) \<le> 3 \<and>
   relevantExamples_in corpus h = take 3 (filter (\<lambda>seq. prefix h (moves seq)) corpus) \<and>
   subseq (relevantExamples_in corpus h) corpus \<and>
   (\<forall>seq \<in> set (relevantExamples_in corpus h).
      seq \<in> set corpus \<and> length h \<le> length (moves seq) \<and>
      (\<forall>i<length h. moves seq ! i = h ! i)) \<and>
   ((\<forall>seq \<in> set corpus. \<not> prefix h (moves seq)) \<longrightarrow> relevantExamples_in corpus h = []) \<and>
   relevantExamples h = relevantExamples_in winningGameSequences h"
proof (intro conjI ballI impI)
  show "length (relevantExamples_in corpus h) \<le> 3"
    by (simp add: relevantExamples_in_filter)
  show "relevantExamples_in corpus h = take 3 (filter (\<lambda>seq. prefix h (moves seq)) corpus)"
    by (rule relevantExamples_in_filter)
  show "subseq (relevantExamples_in corpus h) corpus"
    unfolding relevantExamples_in_filter by (rule subseq_take_filter)
  show "relevantExamples h = relevantExamples_in winningGameSequences h"
    by (simp add: relevantExamples_def)
next
  fix seq
  assume "seq \<in> set (relevantExamples_in corpus h)"
  then have "seq \<in> set (filter (\<lambda>seq. prefix h (moves seq)) corpus)"
    unfolding relevantExamples_in_filter by (rule in_set_takeD)
  then have mem: "seq \<in> set corpus" and pre: "prefix h (moves seq)" by simp_all
  from mem show "seq \<in> set corpus" .
  from pre show "length h \<le> length (moves seq)" by (simp add: prefix_positions)
  from pre show "\<forall>i<length h. moves seq ! i = h ! i" by (simp add: prefix_positions)
next
  assume "\<forall>seq \<in> set corpus. \<not> prefix h (moves seq)"
  then have "filter (\<lambda>seq. prefix h (moves seq)) corpus = []"
    by (simp add: filter_empty_conv)
  then show "relevantExamples_in corpus h = []"
    by (simp add: relevantExamples_in_filter)
qed

theorem relevantExamples_first_three_prefix_matches_witness:
  "relevantExamples [4, 0] =
     [\<lparr>seq_winner = MarkX, moves = [4, 0, 1, 2, 7]\<rparr>,
      \<lparr>seq_winner = MarkO, moves = [4, 0, 6, 3, 2]\<rparr>] \<and>
   relevantExamples [4] =
     [\<lparr>seq_winner = MarkX, moves = [4, 0, 1, 2, 7]\<rparr>,
      \<lparr>seq_winner = MarkX, moves = [4, 2, 7, 6, 1]\<rparr>,
      \<lparr>seq_winner = MarkX, moves = [4, 8, 6, 7, 2]\<rparr>] \<and>
   relevantExamples [5] = []"
  using relevantExamples_first_three_prefix_matches[of winningGameSequences "[4, 0]"]
    relevantExamples_first_three_prefix_matches[of winningGameSequences "[4]"]
    relevantExamples_first_three_prefix_matches[of winningGameSequences "[5]"]
  by (simp add: winningGameSequences_def)

section \<open>The commentary generator\<close>





section \<open>The remote-assisted selectors\<close>

lemma move_is_valid_iff:
  "move_is_valid b (Some (JNumber q)) \<longleftrightarrow>
     (\<exists>i<9. q = of_nat i \<and> i < length b \<and> b ! i = None)"
proof
  assume v: "move_is_valid b (Some (JNumber q))"
  then have range: "0 \<le> q" "q \<le> 8" and cell: "elem_num b q = Some None" by simp_all
  from cell have int: "of_int \<lfloor>q\<rfloor> = q" and at: "elem_int b \<lfloor>q\<rfloor> = Some None"
    by (auto simp: elem_num_def split: if_splits)
  let ?i = "nat \<lfloor>q\<rfloor>"
  have nonneg: "0 \<le> \<lfloor>q\<rfloor>" using range(1) by simp
  have "\<lfloor>q\<rfloor> \<le> 8" using range(2) by (simp add: floor_le_iff)
  then have "?i < 9" using nonneg by linarith
  moreover have "q = of_nat ?i"
  proof -
    have "(of_nat ?i :: rat) = of_int (int ?i)" by simp
    also have "int ?i = \<lfloor>q\<rfloor>" using nonneg by simp
    finally show ?thesis using int by simp
  qed
  moreover have "?i < length b \<and> b ! ?i = None"
    using at nonneg by (auto simp: elem_int_def elem_def split: if_splits)
  ultimately show "\<exists>i<9. q = of_nat i \<and> i < length b \<and> b ! i = None" by blast
next
  assume "\<exists>i<9. q = of_nat i \<and> i < length b \<and> b ! i = None"
  then obtain i where i: "i < 9" "q = of_nat i" "elem b i = Some None"
    by (auto simp: elem_def)
  have "(of_nat i :: rat) \<le> of_nat 8" using i(1) unfolding of_nat_le_iff by simp
  then have "q \<le> 8" using i(2) by simp
  moreover have "elem_num b q = Some None"
    using i(2,3) by (simp add: elem_num_def elem_int_def)
  ultimately show "move_is_valid b (Some (JNumber q))" using i(2) by simp
qed

lemma move_is_valid_number:
  "move_is_valid b mv \<Longrightarrow> \<exists>q. mv = Some (JNumber q)"
  by (cases "(b, mv)" rule: move_is_valid.cases) simp_all

text \<open>
  The body shared by the two selectors, as one case distinction on what the
  environment gives; \<open>f\<close> is what the body returns for the member \<^verbatim>\<open>move\<close>.
\<close>

lemma move_property_cases:
  "move_property j =
     (case j of JNull \<Rightarrow> Inl TypeError | JObject members \<Rightarrow> Inr (map_of members ''move'')
      | _ \<Rightarrow> Inr None)"
  by (cases j) simp_all

lemma remote_pipeline_flat:
  "try_catch
     (and_then (getAIInstance env) (\<lambda>ai.
      and_then (generateContent env req) (\<lambda>response.
      and_then (parse_text env response) (\<lambda>jsonResponse.
      and_then (move_property jsonResponse) (\<lambda>move. Inr (f move))))))
     (\<lambda>error. Inr M) =
   (if API_KEY env = None \<or> API_KEY env = Some [] then Inr M
    else
     (case generateContent env req of
        Inl e \<Rightarrow> Inr M
      | Inr rtext \<Rightarrow>
     (case JSON_parse env (case rtext of Some s \<Rightarrow> s | None \<Rightarrow> ''undefined'') of
        Inl e \<Rightarrow> Inr M
      | Inr j \<Rightarrow>
     (case j of
        JNull \<Rightarrow> Inr M
      | JObject members \<Rightarrow> Inr (f (map_of members ''move''))
      | _ \<Rightarrow> Inr (f None)))))"
  by (simp add: try_catch_def and_then_def move_property_cases getAIInstance_def
      parse_text_def split: sum.splits option.splits json.splits)

lemma remote_pipeline_contract:
  assumes res: "res =
     try_catch
       (and_then (getAIInstance env) (\<lambda>ai.
        and_then (generateContent env req) (\<lambda>response.
        and_then (parse_text env response) (\<lambda>jsonResponse.
        and_then (move_property jsonResponse) (\<lambda>move.
          if move_is_valid b move then Inr (as_number move)
          else Inr (medium_number b (random env)))))))
       (\<lambda>error. Inr (medium_number b (random env)))"
  shows "remote_contract env b req res"
proof -
  define M where "M = map_option rat_of_nat (getMediumAIMove b (random env))"
  define f where "f = (\<lambda>move. if move_is_valid b move then as_number move else M)"
  define ok where "ok = (\<lambda>q::rat. \<exists>i<9. q = of_nat i \<and> i < length b \<and> b ! i = None)"
  define key where "key = (\<not> (API_KEY env = None \<or> API_KEY env = Some []))"
  define parsed where
    "parsed = (\<lambda>rtext. JSON_parse env (case rtext of Some s \<Rightarrow> s | None \<Rightarrow> ''undefined''))"
  have fnum: "f (Some (JNumber q)) = (if ok q then Some q else M)" for q
    unfolding f_def ok_def move_is_valid_iff by auto
  have fother: "f mv = M" if "\<not> (\<exists>q. mv = Some (JNumber q))" for mv
    using that move_is_valid_number[of b mv] by (auto simp: f_def)
  have ok_nat: "ok (of_nat i) \<longleftrightarrow> i < 9 \<and> i < length b \<and> b ! i = None" for i
    unfolding ok_def by auto
  have ok_int: "\<not> ok q" if "\<not> (\<exists>i<9. q = of_nat i)" for q
    using that unfolding ok_def by blast
  have "res =
     try_catch
       (and_then (getAIInstance env) (\<lambda>ai.
        and_then (generateContent env req) (\<lambda>response.
        and_then (parse_text env response) (\<lambda>jsonResponse.
        and_then (move_property jsonResponse) (\<lambda>move. Inr (f move))))))
       (\<lambda>error. Inr M)"
    unfolding res f_def M_def medium_number_def by (simp add: if_distrib[of Inr])
  then have flat: "res =
     (if \<not> key then Inr M
      else
       (case generateContent env req of
          Inl e \<Rightarrow> Inr M
        | Inr rtext \<Rightarrow>
       (case parsed rtext of
          Inl e \<Rightarrow> Inr M
        | Inr j \<Rightarrow>
       (case j of
          JNull \<Rightarrow> Inr M
        | JObject members \<Rightarrow> Inr (f (map_of members ''move''))
        | _ \<Rightarrow> Inr (f None)))))"
    unfolding remote_pipeline_flat key_def parsed_def by simp
  have fNone: "f None = M" by (rule fother) simp
  have returns_value: "\<exists>v. res = Inr v"
    unfolding flat by (simp split: sum.splits json.splits)
  have nokey: "res = Inr M" if "\<not> key"
    unfolding flat using that by simp
  have rejected: "res = Inr M" if "generateContent env req = Inl e" for e
    unfolding flat using that by simp
  have unparsed: "res = Inr M" if "generateContent env req = Inr rtext" "parsed rtext = Inl e" for rtext e
    unfolding flat using that by simp
  have member: "res = (if key then Inr (f (map_of members ''move'')) else Inr M)"
    if "generateContent env req = Inr rtext" "parsed rtext = Inr (JObject members)" for rtext members
    unfolding flat using that by simp
  have no_member: "res = Inr M"
    if "generateContent env req = Inr rtext" "parsed rtext = Inr j"
      "\<not> (\<exists>members q. j = JObject members \<and> map_of members ''move'' = Some (JNumber q))"
    for rtext j
  proof (cases j)
    case (JObject members)
    with that(3) have "\<not> (\<exists>q. map_of members ''move'' = Some (JNumber q))" by blast
    from fother[OF this] member[OF that(1)] that(2) JObject show ?thesis by simp
  qed (use that fNone in \<open>simp_all add: flat\<close>)
  have range: "res = Inr M \<or> (\<exists>q. ok q \<and> res = Inr (Some q))"
  proof (cases "\<exists>rtext members q. key \<and> generateContent env req = Inr rtext \<and>
                  parsed rtext = Inr (JObject members) \<and>
                  map_of members ''move'' = Some (JNumber q) \<and> ok q")
    case True
    then obtain rtext members q where h: "key" "generateContent env req = Inr rtext"
      "parsed rtext = Inr (JObject members)" "map_of members ''move'' = Some (JNumber q)" "ok q"
      by blast
    from member[OF h(2,3)] h(1,4,5) have "res = Inr (Some q)" by (simp add: fnum)
    with h(5) show ?thesis by blast
  next
    case False
    have "res = Inr M"
    proof (cases key)
      case nk: False
      then show ?thesis by (rule nokey)
    next
      case k: True
      show ?thesis
      proof (cases "generateContent env req")
        case (Inl e)
        then show ?thesis by (rule rejected)
      next
        case (Inr rtext)
        show ?thesis
        proof (cases "parsed rtext")
          case (Inl e)
          with Inr show ?thesis by (rule unparsed)
        next
          case pj: (Inr j)
          show ?thesis
          proof (cases "\<exists>members q. j = JObject members \<and>
                          map_of members ''move'' = Some (JNumber q)")
            case nm: False
            from no_member[OF Inr pj nm] show ?thesis .
          next
            case True
            then obtain members q where m: "j = JObject members"
              "map_of members ''move'' = Some (JNumber q)" by blast
            with False k Inr pj have "\<not> ok q" by blast
            with member[OF Inr pj[unfolded m(1)]] m(2) show ?thesis by (simp add: fnum)
          qed
        qed
      qed
    qed
    then show ?thesis by blast
  qed
  show ?thesis
    unfolding remote_contract_def Let_def M_def[symmetric]
  proof (intro conjI allI impI)
    show "\<exists>v. res = Inr v" by (rule returns_value)
    show "res = Inr M \<or> (\<exists>i<9. i < length b \<and> b ! i = None \<and> res = Inr (Some (rat_of_nat i)))"
      using range unfolding ok_def by blast
    show "res = Inr M" if "API_KEY env = None \<or> API_KEY env = Some []"
      using that nokey by (simp add: key_def)
    show "res = Inr M" if "generateContent env req = Inl e" for e
      using that by (rule rejected)
    show "res = Inr M"
      if "generateContent env req = Inr rtext \<and>
          t = (case rtext of Some s \<Rightarrow> s | None \<Rightarrow> ''undefined'') \<and>
          JSON_parse env t = Inl e" for rtext t e
      using that unparsed[of rtext e] by (auto simp: parsed_def)
    show "res = Inr M"
      if "generateContent env req = Inr rtext \<and>
          t = (case rtext of Some s \<Rightarrow> s | None \<Rightarrow> ''undefined'') \<and>
          JSON_parse env t = Inr j \<and>
          \<not> (\<exists>members q. j = JObject members \<and> map_of members ''move'' = Some (JNumber q))"
      for rtext t j
      using that no_member[of rtext j] by (auto simp: parsed_def)
    show "res = Inr M"
      if h: "generateContent env req = Inr rtext \<and>
          t = (case rtext of Some s \<Rightarrow> s | None \<Rightarrow> ''undefined'') \<and>
          JSON_parse env t = Inr (JObject members) \<and>
          map_of members ''move'' = Some (JNumber q) \<and> \<not> (\<exists>i<9. q = rat_of_nat i)"
      for rtext t members q
    proof -
      from h have p: "generateContent env req = Inr rtext" "parsed rtext = Inr (JObject members)"
        and m: "map_of members ''move'' = Some (JNumber q)" and "\<not> ok q"
        using ok_int[of q] by (auto simp: parsed_def)
      with member[OF p] show ?thesis by (simp add: fnum)
    qed
    show "res = Inr M"
      if h: "generateContent env req = Inr rtext \<and>
          t = (case rtext of Some s \<Rightarrow> s | None \<Rightarrow> ''undefined'') \<and>
          JSON_parse env t = Inr (JObject members) \<and>
          map_of members ''move'' = Some (JNumber (rat_of_nat i)) \<and>
          \<not> (i < length b \<and> b ! i = None)"
      for rtext t members i
    proof -
      from h have p: "generateContent env req = Inr rtext" "parsed rtext = Inr (JObject members)"
        and m: "map_of members ''move'' = Some (JNumber (rat_of_nat i))"
        and "\<not> ok (rat_of_nat i)"
        using ok_nat[of i] by (auto simp: parsed_def)
      with member[OF p] show ?thesis by (simp add: fnum)
    qed
    show "res = Inr (Some (rat_of_nat i))"
      if h: "API_KEY env = Some k \<and> k \<noteq> [] \<and> generateContent env req = Inr rtext \<and>
          t = (case rtext of Some s \<Rightarrow> s | None \<Rightarrow> ''undefined'') \<and>
          JSON_parse env t = Inr (JObject members) \<and>
          map_of members ''move'' = Some (JNumber (rat_of_nat i)) \<and> i < 9 \<and>
          i < length b \<and> b ! i = None"
      for k rtext t members i
    proof -
      from h have p: "generateContent env req = Inr rtext" "parsed rtext = Inr (JObject members)"
        and m: "map_of members ''move'' = Some (JNumber (rat_of_nat i))"
        and "ok (rat_of_nat i)" and "key"
        using ok_nat[of i] by (auto simp: parsed_def key_def)
      with member[OF p] show ?thesis by (simp add: fnum)
    qed
  qed
qed

text \<open>
  Claim C1. For every board, every move history and every environment (key, service
  reply, parser, random value), \<^verbatim>\<open>getHardAIMove\<close> and \<^verbatim>\<open>getTrainedAIMove\<close> satisfy
  the contract \<open>remote_contract\<close>: they return a value and raise nothing; a thrown
  error (missing key, rejected call, parse error, a \<^verbatim>\<open>null\<close> reply), an absent or
  non-numeric \<^verbatim>\<open>move\<close>, a number that is not an integer of \<open>[0, 8]\<close> and an occupied
  or missing target cell each give exactly the result of \<open>getMediumAIMove\<close> on the same
  board; a reply whose \<^verbatim>\<open>move\<close> is an integer of \<open>[0, 8]\<close> with an Empty cell is
  returned as it is; and no other value is returned.
\<close>

theorem remote_selectors_validate_or_fall_back:
  "remote_contract env b (HardPrompt (getBoardString b) h) (getHardAIMove env b h) \<and>
   remote_contract env b (TrainedPrompt (getBoardString b) h (relevantExamples h))
     (getTrainedAIMove env b h)"
  by (intro conjI remote_pipeline_contract) (simp_all add: getHardAIMove_def getTrainedAIMove_def)

theorem remote_selectors_validate_or_fall_back_witness:
  "getHardAIMove (answering_env (move_reply_text ''8'') (move_reply 8)) opening_board [0]
     = Inr (Some 8) \<and>
   getTrainedAIMove (answering_env (move_reply_text ''8'') (move_reply 8)) opening_board [0]
     = Inr (Some 8) \<and>
   getHardAIMove (answering_env (move_reply_text ''0'') (move_reply 0)) opening_board [0]
     = Inr (Some 4) \<and>
   getHardAIMove (answering_env (move_reply_text ''1'') (move_reply 1)) block_board [0, 3, 1]
     = Inr (Some 2) \<and>
   getHardAIMove (answering_env (move_reply_text ''2.5'') (move_reply (5 / 2))) block_board
     [0, 3, 1] = Inr (Some 2) \<and>
   getHardAIMove (answering_env (move_reply_text ''9'') (move_reply 9)) block_board [0, 3, 1]
     = Inr (Some 2) \<and>
   getTrainedAIMove offline_env opening_board [0] = Inr (Some 4) \<and>
   getTrainedAIMove offline_env block_board [0, 3, 1] = Inr (Some 2)"
proof -
  note contract = remote_selectors_validate_or_fall_back
  have hard: "remote_contract env b (HardPrompt (getBoardString b) h) (getHardAIMove env b h)"
    for env b h
    using contract[of env b h] by simp
  have trained: "remote_contract env b (TrainedPrompt (getBoardString b) h (relevantExamples h))
                   (getTrainedAIMove env b h)" for env b h
    using contract[of env b h] by simp
  have accepted: "res = Inr (Some (of_nat i))"
    if "remote_contract env b req res" "API_KEY env = Some k" "k \<noteq> []"
      "generateContent env req = Inr (Some t)" "JSON_parse env t = Inr (JObject members)"
      "map_of members ''move'' = Some (JNumber (of_nat i))" "i < 9" "i < length b" "b ! i = None"
    for env b req res k t members i
    using that unfolding remote_contract_def Let_def by (elim conjE) force
  have occupied: "res = Inr (map_option of_nat (getMediumAIMove b (random env)))"
    if "remote_contract env b req res"
      "generateContent env req = Inr (Some t)" "JSON_parse env t = Inr (JObject members)"
      "map_of members ''move'' = Some (JNumber (of_nat i))" "\<not> (i < length b \<and> b ! i = None)"
    for env b req res t members i
    using that unfolding remote_contract_def Let_def by (elim conjE) force
  have out_of_range: "res = Inr (map_option of_nat (getMediumAIMove b (random env)))"
    if "remote_contract env b req res"
      "generateContent env req = Inr (Some t)" "JSON_parse env t = Inr (JObject members)"
      "map_of members ''move'' = Some (JNumber q)" "\<not> (\<exists>i<9. q = of_nat i)"
    for env b req res t members q
    using that unfolding remote_contract_def Let_def by (elim conjE) force
  have no_key: "res = Inr (map_option of_nat (getMediumAIMove b (random env)))"
    if "remote_contract env b req res" "API_KEY env = None"
    for env b req res
    using that unfolding remote_contract_def Let_def by blast
  have frac: "\<not> (\<exists>i<9. (5::rat) / 2 = of_nat i)"
  proof
    assume "\<exists>i<9. (5::rat) / 2 = of_nat i"
    then obtain i :: nat where "(5::rat) / 2 = of_nat i" by blast
    then have "(of_nat 5 :: rat) = of_nat (2 * i)" by simp
    then have "5 = 2 * i" unfolding of_nat_eq_iff .
    then show False by arith
  qed
  have nine: "\<not> (\<exists>i<9. (9::rat) = of_nat i)"
  proof
    assume "\<exists>i<9. (9::rat) = of_nat i"
    then obtain i :: nat where i: "i < 9" "(of_nat 9 :: rat) = of_nat i" by auto
    from i(2) have "9 = i" unfolding of_nat_eq_iff .
    with i(1) show False by simp
  qed
  have a1: "getHardAIMove (answering_env (move_reply_text ''8'') (move_reply 8)) opening_board [0]
              = Inr (Some (of_nat 8))"
    by (rule accepted[where i = 8 and k = "''key''" and t = "move_reply_text ''8''"
            and members = "[(''move'', JNumber 8)]", OF hard])
       (simp_all add: answering_env_def move_reply_def opening_board_def)
  have a2: "getTrainedAIMove (answering_env (move_reply_text ''8'') (move_reply 8)) opening_board [0]
              = Inr (Some (of_nat 8))"
    by (rule accepted[where i = 8 and k = "''key''" and t = "move_reply_text ''8''"
            and members = "[(''move'', JNumber 8)]", OF trained])
       (simp_all add: answering_env_def move_reply_def opening_board_def)
  have a3: "getHardAIMove (answering_env (move_reply_text ''0'') (move_reply 0)) opening_board [0]
              = Inr (map_option of_nat (getMediumAIMove opening_board
                  (random (answering_env (move_reply_text ''0'') (move_reply 0)))))"
    by (rule occupied[where i = 0 and t = "move_reply_text ''0''"
            and members = "[(''move'', JNumber 0)]", OF hard])
       (simp_all add: answering_env_def move_reply_def opening_board_def)
  have a4: "getHardAIMove (answering_env (move_reply_text ''1'') (move_reply 1)) block_board [0, 3, 1]
              = Inr (map_option of_nat (getMediumAIMove block_board
                  (random (answering_env (move_reply_text ''1'') (move_reply 1)))))"
    by (rule occupied[where i = 1 and t = "move_reply_text ''1''"
            and members = "[(''move'', JNumber 1)]", OF hard])
       (simp_all add: answering_env_def move_reply_def block_board_def)
  have a5: "getHardAIMove (answering_env (move_reply_text ''2.5'') (move_reply (5 / 2))) block_board
              [0, 3, 1]
              = Inr (map_option of_nat (getMediumAIMove block_board
                  (random (answering_env (move_reply_text ''2.5'') (move_reply (5 / 2))))))"
  proof (rule out_of_range[where q = "5 / 2" and t = "move_reply_text ''2.5''"
            and members = "[(''move'', JNumber (5 / 2))]", OF hard])
    show "\<not> (\<exists>i<9. (5::rat) / 2 = of_nat i)" by (rule frac)
  qed (simp_all add: answering_env_def move_reply_def)
  have a6: "getHardAIMove (answering_env (move_reply_text ''9'') (move_reply 9)) block_board [0, 3, 1]
              = Inr (map_option of_nat (getMediumAIMove block_board
                  (random (answering_env (move_reply_text ''9'') (move_reply 9)))))"
  proof (rule out_of_range[where q = 9 and t = "move_reply_text ''9''"
            and members = "[(''move'', JNumber 9)]", OF hard])
    show "\<not> (\<exists>i<9. (9::rat) = of_nat i)" by (rule nine)
  qed (simp_all add: answering_env_def move_reply_def)
  have a7: "getTrainedAIMove offline_env opening_board [0]
              = Inr (map_option of_nat (getMediumAIMove opening_board (random offline_env)))"
    by (rule no_key[OF trained]) (simp add: offline_env_def)
  have a8: "getTrainedAIMove offline_env block_board [0, 3, 1]
              = Inr (map_option of_nat (getMediumAIMove block_board (random offline_env)))"
    by (rule no_key[OF trained]) (simp add: offline_env_def)
  show ?thesis
    using a1 a2 a3 a4 a5 a6 a7 a8
    by (simp add: getMediumAIMove_opening getMediumAIMove_block)
qed

section \<open>The click handler\<close>

lemma checkGameStatus_frame:
  "board (checkGameStatus b s) = board s"
  "moveHistory (checkGameStatus b s) = moveHistory s"
  "isPlayerTurn (checkGameStatus b s) = isPlayerTurn s"
  "isAiThinking (checkGameStatus b s) = isAiThinking s"
  "difficulty (checkGameStatus b s) = difficulty s"
  by (simp_all add: checkGameStatus_def split: option.splits)

lemma checkGameStatus_in_progress:
  "checkWinner b = None \<Longrightarrow> \<not> board_full b \<Longrightarrow> checkGameStatus b s = s"
  by (simp add: checkGameStatus_def checkWinner_def board_full_def)

lemma availableCells_empty_iff: "length (availableCells b) = 0 \<longleftrightarrow> board_full b"
proof -
  have "length (availableCells b) = 0 \<longleftrightarrow>
        (\<forall>p \<in> set (enumerate 0 b). snd p \<noteq> None)"
    by (auto simp: availableCells_def filter_empty_conv split: prod.splits)
  also have "\<dots> \<longleftrightarrow> (\<forall>cell \<in> set b. cell \<noteq> None)"
  proof
    assume a: "\<forall>p \<in> set (enumerate 0 b). snd p \<noteq> None"
    show "\<forall>cell \<in> set b. cell \<noteq> None"
    proof
      fix cell assume "cell \<in> set b"
      then obtain n where "n < length b" "b ! n = cell" by (auto simp: in_set_conv_nth)
      then have "(n, cell) \<in> set (enumerate 0 b)" by (simp add: in_set_enumerate_eq)
      with a show "cell \<noteq> None" by fastforce
    qed
  next
    assume a: "\<forall>cell \<in> set b. cell \<noteq> None"
    show "\<forall>p \<in> set (enumerate 0 b). snd p \<noteq> None"
    proof
      fix p assume "p \<in> set (enumerate 0 b)"
      then have "fst p < length b" "b ! fst p = snd p" by (simp_all add: in_set_enumerate_eq)
      then have "snd p \<in> set b" by (metis nth_mem)
      with a show "snd p \<noteq> None" by blast
    qed
  qed
  finally show ?thesis by (simp add: board_full_def list_all_iff)
qed

lemma availableCells_Nil_iff: "availableCells b = [] \<longleftrightarrow> board_full b"
  using availableCells_empty_iff[of b] by simp

lemma useEffect_aiMove_same: "useEffect_aiMove (game c) c = c"
  by (simp add: useEffect_aiMove_def)

lemma useEffect_aiMove_player_turn:
  "isPlayerTurn (game c) \<Longrightarrow> useEffect_aiMove before c = c"
  by (simp add: useEffect_aiMove_def)

lemma click_ignored:
  assumes "truthy (elem (board (game c)) i) \<or> winnerInfo (game c) \<noteq> None \<or>
           isDraw (game c) \<or> \<not> isPlayerTurn (game c)"
  shows "handleCellClick i (game c) = game c \<and> exec (Click i) c = c"
proof -
  have h: "handleCellClick i (game c) = game c"
    using assms by (auto simp: handleCellClick_def)
  then show ?thesis by (simp add: useEffect_aiMove_same)
qed

text \<open>
  While the state says that the AI is thinking, it is not the player's turn: the flag
  is raised only by an \<^verbatim>\<open>aiMove\<close> started when \<^verbatim>\<open>isPlayerTurn\<close> is false, and
  whatever gives the turn back to the player lowers it.
\<close>

lemma useEffect_aiMove_thinking:
  assumes "isAiThinking (game c) \<longrightarrow> \<not> isPlayerTurn (game c)"
  shows "isAiThinking (game (useEffect_aiMove before c)) \<longrightarrow>
         \<not> isPlayerTurn (game (useEffect_aiMove before c))"
  using assms by (auto simp: useEffect_aiMove_def aiMove_begin_def Let_def split: if_splits)

lemma handleCellClick_thinking:
  assumes "isAiThinking s \<longrightarrow> \<not> isPlayerTurn s"
  shows "isAiThinking (handleCellClick i s) \<longrightarrow> \<not> isPlayerTurn (handleCellClick i s)"
  using assms by (simp add: handleCellClick_def checkGameStatus_frame Let_def)

lemma aiMove_resume_thinking:
  assumes "isAiThinking s \<longrightarrow> \<not> isPlayerTurn s"
  shows "isAiThinking (aiMove_resume env t s) \<longrightarrow> \<not> isPlayerTurn (aiMove_resume env t s)"
  using assms by (simp add: aiMove_resume_def Let_def split: sum.splits)

lemma exec_thinking:
  assumes "isAiThinking (game c) \<longrightarrow> \<not> isPlayerTurn (game c)"
  shows "isAiThinking (game (exec e c)) \<longrightarrow> \<not> isPlayerTurn (game (exec e c))"
proof (cases e)
  case (Click i)
  show ?thesis
    unfolding Click exec.simps
    using handleCellClick_thinking[OF assms, of i] assms
    by (auto intro!: useEffect_aiMove_thinking[rule_format] dest!: useEffect_aiMove_thinking[rule_format, rotated])
next
  case Restart
  show ?thesis
    unfolding Restart exec.simps
    by (rule useEffect_aiMove_thinking) (simp add: restartGame_def)
next
  case (ChooseDifficulty level)
  show ?thesis
    unfolding ChooseDifficulty exec.simps
    by (rule useEffect_aiMove_thinking) (simp add: restartGame_def)
next
  case OpenDifficultyDialog
  show ?thesis
    unfolding OpenDifficultyDialog exec.simps
    by (rule useEffect_aiMove_thinking) (simp add: assms)
next
  case CloseDifficultyDialog
  show ?thesis
    unfolding CloseDifficultyDialog exec.simps
    by (rule useEffect_aiMove_thinking) (simp add: assms)
next
  case ToggleDarkMode
  show ?thesis
    unfolding ToggleDarkMode exec.simps
    by (rule useEffect_aiMove_thinking) (simp add: assms)
next
  case (AiMoveResumes k env)
  show ?thesis
  proof (cases "k < length (pending c)")
    case True
    then show ?thesis
      unfolding AiMoveResumes exec.simps
      using aiMove_resume_thinking[OF assms, of env "pending c ! k"]
      by (simp add: useEffect_aiMove_thinking)
  next
    case False
    then show ?thesis unfolding AiMoveResumes using assms by simp
  qed
qed

lemma run_thinking:
  "isAiThinking (game c) \<longrightarrow> \<not> isPlayerTurn (game c) \<Longrightarrow>
   isAiThinking (game (run es c)) \<longrightarrow> \<not> isPlayerTurn (game (run es c))"
proof (induction es arbitrary: c)
  case Nil
  then show ?case by simp
next
  case (Cons e es)
  from Cons.IH[OF exec_thinking[OF Cons.prems, of e]] show ?case by simp
qed

lemma reachable_thinking:
  "reachable c \<Longrightarrow> isAiThinking (game c) \<Longrightarrow> \<not> isPlayerTurn (game c)"
proof -
  assume "reachable c" and th: "isAiThinking (game c)"
  then obtain d sc played dark es where c: "c = run es (startConfig d sc played dark)"
    by (auto simp: reachable_def)
  have "isAiThinking (game (startConfig d sc played dark)) \<longrightarrow>
        \<not> isPlayerTurn (game (startConfig d sc played dark))"
    by (simp add: startConfig_def initialGame_def)
  from run_thinking[OF this, of es] th c show ?thesis by simp
qed

text \<open>
  Claim C8. An illegal click changes nothing and raises nothing: when the clicked cell
  is occupied, or the game is won or drawn, or it is not the player's turn, or (in a
  configuration the game can reach) the AI is thinking, \<^verbatim>\<open>handleCellClick\<close> returns
  the state it was given, and the whole configuration (state and suspended AI moves)
  is the same after the click event, so that no AI move is started either.
\<close>

theorem illegal_click_is_ignored:
  assumes "truthy (elem (board (game c)) i) \<or> winnerInfo (game c) \<noteq> None \<or>
           isDraw (game c) \<or> \<not> isPlayerTurn (game c) \<or>
           (reachable c \<and> isAiThinking (game c))"
  shows "handleCellClick i (game c) = game c \<and> exec (Click i) c = c"
proof (cases "reachable c \<and> isAiThinking (game c)")
  case True
  then have "\<not> isPlayerTurn (game c)" using reachable_thinking by blast
  then show ?thesis using click_ignored[of c i] by blast
next
  case False
  with assms show ?thesis using click_ignored[of c i] by blast
qed

section \<open>Steps of a game\<close>

lemma click_step:
  assumes i: "i < length (board (game c))" "board (game c) ! i = None"
    and turn: "winnerInfo (game c) = None" "\<not> isDraw (game c)" "isPlayerTurn (game c)"
    and nb: "nb = (board (game c))[i := Some MarkX]"
    and go_on: "checkWinner nb = None" "\<not> board_full nb"
  shows "exec (Click i) c =
     \<lparr>game = (game c)\<lparr>board := nb, moveHistory := moveHistory (game c) @ [i],
                       isPlayerTurn := False, isAiThinking := True,
                       aiCommentary := ''Hmm, let me think...''\<rparr>,
      pending = pending c @ [\<lparr>currentBoard = nb,
                                currentMoveHistory = moveHistory (game c) @ [i],
                                moveDifficulty = difficulty (game c)\<rparr>]\<rparr>"
proof -
  let ?s = "(game c)\<lparr>board := nb, moveHistory := moveHistory (game c) @ [i],
                      isPlayerTurn := False\<rparr>"
  have "\<not> truthy (elem (board (game c)) i)" using i by (simp add: elem_def)
  then have click: "handleCellClick i (game c) = ?s"
    using turn nb checkGameStatus_in_progress[OF go_on]
    by (simp add: handleCellClick_def Let_def)
  have cells: "availableCells nb \<noteq> []"
    using go_on(2) by (simp add: availableCells_Nil_iff)
  have "useEffect_aiMove (game c) (c\<lparr>game := ?s\<rparr>) =
     \<lparr>game = ?s\<lparr>isAiThinking := True, aiCommentary := ''Hmm, let me think...''\<rparr>,
      pending = pending c @ [\<lparr>currentBoard = nb,
                                currentMoveHistory = moveHistory (game c) @ [i],
                                moveDifficulty = difficulty (game c)\<rparr>]\<rparr>"
    using turn cells by (simp add: useEffect_aiMove_def aiMove_begin_def Let_def)
  then show ?thesis using i(1) click by simp
qed

lemma restart_step: "exec Restart c = c\<lparr>game := restartGame (game c)\<rparr>"
  by (simp add: useEffect_aiMove_player_turn restartGame_def)

lemma elem_move_index:
  "elem_move b (Some (of_nat m)) = elem b m"
  by (simp add: elem_move_def elem_num_def elem_int_def)

lemma resume_medium_step:
  assumes k: "k < length (pending c)" "pending c ! k = t"
    and t: "moveDifficulty t = Medium"
    and m: "getMediumAIMove (currentBoard t) (random env) = Some m"
           "m < length (currentBoard t)" "currentBoard t ! m = None"
    and nb: "nb = (currentBoard t)[m := Some MarkO]"
    and go_on: "checkWinner nb = None" "\<not> board_full nb"
  shows "exec (AiMoveResumes k env) c =
     \<lparr>game = (game c)\<lparr>aiCommentary := [], board := nb,
                       moveHistory := moveHistory (game c) @ [m],
                       isPlayerTurn := True, isAiThinking := False\<rparr>,
      pending = take k (pending c) @ drop (Suc k) (pending c)\<rparr>"
proof -
  have sel: "selectMove env t = Inr (Some (of_nat m))"
    using t m(1) by (simp add: selectMove_def medium_number_def)
  have cell: "elem_move (currentBoard t) (Some (of_nat m)) = Some None"
    using m(2,3) by (simp add: elem_move_index elem_def)
  have "aiMove_resume env t (game c) =
          (game c)\<lparr>aiCommentary := [], board := nb, moveHistory := moveHistory (game c) @ [m],
                    isPlayerTurn := True, isAiThinking := False\<rparr>"
    using sel cell t nb checkGameStatus_in_progress[OF go_on]
    by (simp add: aiMove_resume_def Let_def)
  then show ?thesis
    using k by (simp add: useEffect_aiMove_player_turn)
qed

section \<open>Concrete boards\<close>

lemma initial_game:
  "board (game (initialConfig d)) = empty_board"
  "moveHistory (game (initialConfig d)) = []"
  "winnerInfo (game (initialConfig d)) = None"
  "\<not> isDraw (game (initialConfig d))"
  "isPlayerTurn (game (initialConfig d))"
  "difficulty (game (initialConfig d)) = d"
  "pending (initialConfig d) = []"
  by (simp_all add: initialConfig_def startConfig_def initialGame_def empty_board_def
      numeral_eq_Suc)

lemma restarted_game:
  "board (restartGame s) = empty_board"
  "moveHistory (restartGame s) = []"
  "winnerInfo (restartGame s) = None"
  "\<not> isDraw (restartGame s)"
  "isPlayerTurn (restartGame s)"
  "difficulty (restartGame s) = difficulty s"
  by (simp_all add: restartGame_def empty_board_def numeral_eq_Suc)

lemma no_line_yet:
  "checkWinner opening_board = None" "\<not> board_full opening_board"
  "checkWinner centre_board = None" "\<not> board_full centre_board"
  "checkWinner stale_board = None" "\<not> board_full stale_board"
  by (simp_all add: eval_board board_full_def opening_board_def centre_board_def
      stale_board_def)

lemma first_marks:
  "empty_board[0 := Some MarkX] = opening_board"
  "empty_board[4 := Some MarkX] = centre_board"
  "opening_board[4 := Some MarkO] = stale_board"
  by (simp_all add: empty_board_def opening_board_def centre_board_def stale_board_def
      list_update_Cons_numeral)

section \<open>Runs\<close>

lemma reachable_run: "reachable (run es (initialConfig d))"
  unfolding reachable_def initialConfig_def by blast

text \<open>From here on an event is executed through the step lemmas.\<close>

declare exec.simps [simp del]

lemma run_last: "run (es @ [e]) c = exec e (run es c)"
  by (induction es arbitrary: c) simp_all

declare run.simps [simp del]

text \<open>The first click of a game, on cell 0: the AI move is started and suspended.\<close>

lemma first_click:
  "run [Click 0] (initialConfig d) =
     \<lparr>game = (game (initialConfig d))
               \<lparr>board := opening_board, moveHistory := [0], isPlayerTurn := False,
                isAiThinking := True, aiCommentary := ''Hmm, let me think...''\<rparr>,
      pending = [\<lparr>currentBoard = opening_board, currentMoveHistory = [0],
                  moveDifficulty = d\<rparr>]\<rparr>"
proof -
  have len: "0 < length (board (game (initialConfig d)))"
    and cell: "board (game (initialConfig d)) ! 0 = None"
    by (simp_all add: initial_game empty_board_def)
  have nb: "opening_board = (board (game (initialConfig d)))[0 := Some MarkX]"
    by (simp add: initial_game first_marks)
  have "run [Click 0] (initialConfig d) = exec (Click 0) (initialConfig d)"
    by (simp add: run.simps)
  also note click_step[OF len cell initial_game(3,4,5) nb no_line_yet(1,2)]
  finally show ?thesis by (simp add: initial_game)
qed

text \<open>The restart during the suspension: a new game, with the old AI move still pending.\<close>

lemma restart_while_pending:
  "run [Click 0, Restart] (initialConfig d) =
     \<lparr>game = restartGame (game (run [Click 0] (initialConfig d))),
      pending = [\<lparr>currentBoard = opening_board, currentMoveHistory = [0],
                  moveDifficulty = d\<rparr>]\<rparr>"
proof -
  have "run [Click 0, Restart] (initialConfig d) = exec Restart (run [Click 0] (initialConfig d))"
    using run_last[of "[Click 0]" Restart] by simp
  also have "\<dots> = (run [Click 0] (initialConfig d))
                     \<lparr>game := restartGame (game (run [Click 0] (initialConfig d)))\<rparr>"
    by (rule restart_step)
  finally show ?thesis by (simp add: first_click)
qed

text \<open>The suspended move resumes in the new game.\<close>

lemma stale_move_applied:
  "run restart_while_thinking (initialConfig Medium) =
     \<lparr>game = (restartGame (game (run [Click 0] (initialConfig Medium))))
               \<lparr>aiCommentary := [], board := stale_board, moveHistory := [4],
                isPlayerTurn := True, isAiThinking := False\<rparr>,
      pending = []\<rparr>"
proof -
  let ?c = "run [Click 0, Restart] (initialConfig Medium)"
  let ?t = "\<lparr>currentBoard = opening_board, currentMoveHistory = [0],
             moveDifficulty = Medium\<rparr>"
  have k: "0 < length (pending ?c)" "pending ?c ! 0 = ?t"
    by (simp_all add: restart_while_pending)
  have t: "moveDifficulty ?t = Medium" by simp
  have m: "getMediumAIMove (currentBoard ?t) (random offline_env) = Some 4"
    "4 < length (currentBoard ?t)" "currentBoard ?t ! 4 = None"
    by (simp_all add: getMediumAIMove_opening) (simp_all add: opening_board_def)
  have nb: "stale_board = (currentBoard ?t)[4 := Some MarkO]"
    by (simp add: first_marks)
  have "run restart_while_thinking (initialConfig Medium) = exec (AiMoveResumes 0 offline_env) ?c"
    using run_last[of "[Click 0, Restart]" "AiMoveResumes 0 offline_env"]
    by (simp add: restart_while_thinking_def)
  also note resume_medium_step[OF k t m nb no_line_yet(5,6)]
  finally show ?thesis
    by (simp add: restart_while_pending restarted_game)
qed

text \<open>
  Claim C10 fails on the code. The player clicks cell 0, restarts while the AI move
  is suspended, and the suspended move resumes: it installs the board of the old game
  with its own mark (X at 0, O at 4) and appends its cell to the history of the new
  game. The configuration is reachable, its history \<open>[4]\<close> has one entry for two
  non-Empty cells, and the entry at position 0 was played as O.
\<close>

theorem stale_ai_move_breaks_history:
  "reachable (run restart_while_thinking (initialConfig Medium)) \<and>
   board (game (run restart_while_thinking (initialConfig Medium))) = stale_board \<and>
   moveHistory (game (run restart_while_thinking (initialConfig Medium))) = [4] \<and>
   \<not> history_records_board (game (run restart_while_thinking (initialConfig Medium)))"
proof -
  have "\<not> history_records_board (game (run restart_while_thinking (initialConfig Medium)))"
    by (simp add: stale_move_applied history_records_board_def stale_board_def)
  then show ?thesis
    using reachable_run[of restart_while_thinking Medium] by (simp add: stale_move_applied)
qed

theorem stale_ai_move_breaks_history_witness:
  "length (moveHistory (game (run restart_while_thinking (initialConfig Medium)))) = 1 \<and>
   length (filter (\<lambda>cell. cell \<noteq> None)
            (board (game (run restart_while_thinking (initialConfig Medium))))) = 2"
  using stale_ai_move_breaks_history by (simp add: stale_board_def)

text \<open>The player has restarted and clicked the centre; two AI moves are pending.\<close>

lemma click_in_new_game:
  "run restart_and_click_while_thinking (initialConfig Medium) =
     \<lparr>game = (restartGame (game (run [Click 0] (initialConfig Medium))))
               \<lparr>board := centre_board, moveHistory := [4], isPlayerTurn := False,
                isAiThinking := True, aiCommentary := ''Hmm, let me think...''\<rparr>,
      pending = [\<lparr>currentBoard = opening_board, currentMoveHistory = [0],
                  moveDifficulty = Medium\<rparr>,
                 \<lparr>currentBoard = centre_board, currentMoveHistory = [4],
                  moveDifficulty = Medium\<rparr>]\<rparr>"
proof -
  let ?c = "run [Click 0, Restart] (initialConfig Medium)"
  have g: "game ?c = restartGame (game (run [Click 0] (initialConfig Medium)))"
    by (simp add: restart_while_pending)
  have len: "4 < length (board (game ?c))" and cell: "board (game ?c) ! 4 = None"
    unfolding g by (simp_all add: restarted_game empty_board_def)
  have turn: "winnerInfo (game ?c) = None" "\<not> isDraw (game ?c)" "isPlayerTurn (game ?c)"
    unfolding g by (simp_all add: restarted_game)
  have nb: "centre_board = (board (game ?c))[4 := Some MarkX]"
    unfolding g by (simp add: restarted_game first_marks)
  have "run restart_and_click_while_thinking (initialConfig Medium) = exec (Click 4) ?c"
    using run_last[of "[Click 0, Restart]" "Click 4"]
    by (simp add: restart_and_click_while_thinking_def)
  also note click_step[OF len cell turn nb no_line_yet(3,4)]
  finally show ?thesis
    unfolding g by (simp add: restart_while_pending restarted_game first_click initial_game)
qed

text \<open>
  Claim C9 fails on the code. The player clicks cell 0, restarts while the AI move is
  suspended and clicks the centre of the new game; the first suspended move then
  resumes and installs the old board with O at the centre. The centre cell held X and
  now holds O, and cell 0, Empty since the restart, holds the X of the old game: a move
  overwrote a mark.
\<close>

theorem stale_ai_move_overwrites_mark:
  "reachable (run restart_and_click_while_thinking (initialConfig Medium)) \<and>
   board (game (run restart_and_click_while_thinking (initialConfig Medium))) = centre_board \<and>
   board (game (exec (AiMoveResumes 0 offline_env)
                  (run restart_and_click_while_thinking (initialConfig Medium)))) = stale_board \<and>
   \<not> marks_kept centre_board stale_board"
proof -
  let ?c = "run restart_and_click_while_thinking (initialConfig Medium)"
  let ?t = "\<lparr>currentBoard = opening_board, currentMoveHistory = [0],
             moveDifficulty = Medium\<rparr>"
  have k: "0 < length (pending ?c)" "pending ?c ! 0 = ?t"
    by (simp_all add: click_in_new_game)
  have t: "moveDifficulty ?t = Medium" by simp
  have m: "getMediumAIMove (currentBoard ?t) (random offline_env) = Some 4"
    "4 < length (currentBoard ?t)" "currentBoard ?t ! 4 = None"
    by (simp_all add: getMediumAIMove_opening) (simp_all add: opening_board_def)
  have nb: "stale_board = (currentBoard ?t)[4 := Some MarkO]"
    by (simp add: first_marks)
  have after: "board (game (exec (AiMoveResumes 0 offline_env) ?c)) = stale_board"
    by (simp add: resume_medium_step[OF k t m nb no_line_yet(5,6)])
  have before: "board (game ?c) = centre_board"
    by (simp add: click_in_new_game)
  have "\<not> marks_kept centre_board stale_board"
    by (simp add: marks_kept_def centre_board_def stale_board_def elem_def)
  then show ?thesis
    using reachable_run[of restart_and_click_while_thinking Medium] before after by simp
qed

theorem stale_ai_move_overwrites_mark_witness:
  "board (game (run restart_and_click_while_thinking (initialConfig Medium))) ! 4
     = Some MarkX \<and>
   board (game (exec (AiMoveResumes 0 offline_env)
                  (run restart_and_click_while_thinking (initialConfig Medium)))) ! 4
     = Some MarkO"
  using stale_ai_move_overwrites_mark by (simp add: centre_board_def stale_board_def)

theorem illegal_click_is_ignored_witness:
  "reachable (run [Click 0] (initialConfig Medium)) \<and>
   isAiThinking (game (run [Click 0] (initialConfig Medium))) \<and>
   exec (Click 3) (run [Click 0] (initialConfig Medium)) = run [Click 0] (initialConfig Medium) \<and>
   truthy (elem (board (game (run [Click 0] (initialConfig Medium)))) 0) \<and>
   handleCellClick 0 (game (run [Click 0] (initialConfig Medium)))
     = game (run [Click 0] (initialConfig Medium))"
proof -
  let ?c = "run [Click 0] (initialConfig Medium)"
  have r: "reachable ?c" by (rule reachable_run)
  have th: "isAiThinking (game ?c)" by (simp add: first_click)
  have occ: "truthy (elem (board (game ?c)) 0)"
    by (simp add: first_click elem_def opening_board_def)
  from illegal_click_is_ignored[of ?c 3] r th
  have "exec (Click 3) ?c = ?c" by blast
  moreover from illegal_click_is_ignored[of ?c 0] occ
  have "handleCellClick 0 (game ?c) = game ?c" by blast
  ultimately show ?thesis using r th occ by simp
qed

section \<open>Games without a restart during a suspended AI move\<close>

lemma history_records_board_iff:
  "history_records_board s \<longleftrightarrow>
     length (moveHistory s) = length (filter (\<lambda>cell. cell \<noteq> None) (board s)) \<and>
     distinct (moveHistory s) \<and>
     (\<forall>k<length (moveHistory s).
        moveHistory s ! k < 9 \<and>
        elem (board s) (moveHistory s ! k) = Some (Some (if even k then MarkX else MarkO)))"
  by (auto simp: history_records_board_def list_all_length nth_enumerate_eq)

lemma history_records_board_cong:
  "board s' = board s \<Longrightarrow> moveHistory s' = moveHistory s \<Longrightarrow>
   history_records_board s' = history_records_board s"
  by (simp add: history_records_board_def)

lemma marked_count_update:
  "i < length b \<Longrightarrow> b ! i = None \<Longrightarrow>
   length (filter (\<lambda>cell. cell \<noteq> None) (b[i := Some p]))
     = Suc (length (filter (\<lambda>cell. cell \<noteq> None) b))"
proof (induction b arbitrary: i)
  case Nil
  then show ?case by simp
next
  case (Cons x xs)
  then show ?case by (cases i) auto
qed

lemma history_extend:
  assumes inv: "history_records_board s"
    and i: "i < 9" "i < length (board s)" "board s ! i = None"
    and p: "p = (if even (length (moveHistory s)) then MarkX else MarkO)"
    and s': "board s' = (board s)[i := Some p]" "moveHistory s' = moveHistory s @ [i]"
  shows "history_records_board s'"
proof -
  let ?h = "moveHistory s" and ?b = "board s"
  from inv have len: "length ?h = length (filter (\<lambda>cell. cell \<noteq> None) ?b)"
    and dist: "distinct ?h"
    and cells: "\<And>k. k < length ?h \<Longrightarrow>
        ?h ! k < 9 \<and> elem ?b (?h ! k) = Some (Some (if even k then MarkX else MarkO))"
    by (simp_all add: history_records_board_iff)
  have fresh: "?h ! k \<noteq> i" if "k < length ?h" for k
  proof
    assume "?h ! k = i"
    with cells[OF that] have "elem ?b i = Some (Some (if even k then MarkX else MarkO))"
      by simp
    with i(2,3) show False by (simp add: elem_def)
  qed
  have "i \<notin> set ?h"
  proof
    assume "i \<in> set ?h"
    then obtain k where "k < length ?h" "?h ! k = i" by (auto simp: in_set_conv_nth)
    with fresh show False by blast
  qed
  then have dist': "distinct (?h @ [i])" using dist by simp
  have len': "length (?h @ [i]) = length (filter (\<lambda>cell. cell \<noteq> None) (?b[i := Some p]))"
    using len marked_count_update[OF i(2,3), of p] by simp
  have cells': "(?h @ [i]) ! k < 9 \<and>
        elem (?b[i := Some p]) ((?h @ [i]) ! k)
          = Some (Some (if even k then MarkX else MarkO))"
    if k: "k < length (?h @ [i])" for k
  proof (cases "k < length ?h")
    case True
    then have "(?h @ [i]) ! k = ?h ! k" by (simp add: nth_append)
    then show ?thesis using cells[OF True] fresh[OF True] by (simp add: elem_update)
  next
    case False
    then have "k = length ?h" using k by simp
    then show ?thesis using i(1,2) p by (simp add: elem_update)
  qed
  show ?thesis
    unfolding history_records_board_iff s' using len' dist' cells' by blast
qed

lemma useEffect_aiMove_result:
  "board (game (useEffect_aiMove before c)) = board (game c)"
  "moveHistory (game (useEffect_aiMove before c)) = moveHistory (game c)"
  "isPlayerTurn (game (useEffect_aiMove before c)) = isPlayerTurn (game c)"
  "pending (useEffect_aiMove before c) = pending c \<or>
   (\<not> isPlayerTurn (game c) \<and>
    (\<exists>t. currentBoard t = board (game c) \<and> pending (useEffect_aiMove before c) = pending c @ [t]))"
  by (auto simp: useEffect_aiMove_def aiMove_begin_def Let_def)

lemma useEffect_aiMove_same_deps:
  "isPlayerTurn (game c) = isPlayerTurn before \<Longrightarrow> winnerInfo (game c) = winnerInfo before \<Longrightarrow>
   isDraw (game c) = isDraw before \<Longrightarrow> board (game c) = board before \<Longrightarrow>
   useEffect_aiMove before c = c"
  by (simp add: useEffect_aiMove_def)

text \<open>
  After the handler of an event, with no AI move pending, the effect leaves the
  configuration in step.
\<close>

lemma useEffect_aiMove_in_step:
  assumes "length (board (game c)) = 9" "history_records_board (game c)"
    and "isPlayerTurn (game c) \<Longrightarrow> even (length (moveHistory (game c)))"
    and "\<not> isPlayerTurn (game c) \<Longrightarrow> odd (length (moveHistory (game c)))"
    and "pending c = []"
  shows "in_step (useEffect_aiMove before c)"
proof -
  let ?c' = "useEffect_aiMove before c"
  have hrb: "history_records_board (game ?c')"
    using assms(2) history_records_board_cong[OF useEffect_aiMove_result(1,2), of before c]
    by simp
  from useEffect_aiMove_result(4)[of before c] assms(5)
  have "pending ?c' = [] \<or>
        (\<not> isPlayerTurn (game c) \<and> (\<exists>t. currentBoard t = board (game c) \<and> pending ?c' = [t]))"
    by simp
  then show ?thesis
    unfolding in_step_def using hrb assms(1,3,4)
    by (auto simp: useEffect_aiMove_result)
qed

lemma handleCellClick_result:
  "handleCellClick i s = s \<or>
   (isPlayerTurn s \<and> \<not> truthy (elem (board s) i) \<and>
    board (handleCellClick i s) = (board s)[i := Some MarkX] \<and>
    moveHistory (handleCellClick i s) = moveHistory s @ [i] \<and>
    \<not> isPlayerTurn (handleCellClick i s))"
  by (simp add: handleCellClick_def Let_def checkGameStatus_frame)

lemma empty_cell: "i < length b \<Longrightarrow> \<not> truthy (elem b i) \<Longrightarrow> b ! i = None"
  by (cases "b ! i") (simp_all add: elem_def)

lemma elem_move_Some_None:
  assumes "elem_move cb mv = Some None"
  shows "\<exists>q. mv = Some q \<and> nat \<lfloor>q\<rfloor> < length cb \<and> cb ! nat \<lfloor>q\<rfloor> = None"
proof -
  from assms obtain q where mv: "mv = Some q" and "elem_num cb q = Some None"
    by (cases mv) (simp_all add: elem_move_def)
  then have "0 \<le> \<lfloor>q\<rfloor>" "elem cb (nat \<lfloor>q\<rfloor>) = Some None"
    by (auto simp: elem_num_def elem_int_def split: if_splits)
  then show ?thesis using mv by (auto simp: elem_def split: if_splits)
qed

lemma aiMove_resume_result:
  "(board (aiMove_resume env t s) = board s \<and>
    moveHistory (aiMove_resume env t s) = moveHistory s \<and>
    isPlayerTurn (aiMove_resume env t s) = isPlayerTurn s) \<or>
   (\<exists>m<length (currentBoard t). currentBoard t ! m = None \<and>
      board (aiMove_resume env t s) = (currentBoard t)[m := Some MarkO] \<and>
      moveHistory (aiMove_resume env t s) = moveHistory s @ [m] \<and>
      isPlayerTurn (aiMove_resume env t s))"
proof (cases "selectMove env t")
  case (Inl e)
  then show ?thesis by (simp add: aiMove_resume_def)
next
  case (Inr mv)
  show ?thesis
  proof (cases "elem_move (currentBoard t) mv = Some None")
    case False
    then show ?thesis using Inr by (simp add: aiMove_resume_def)
  next
    case True
    from elem_move_Some_None[OF True] obtain q where q: "mv = Some q"
      "nat \<lfloor>q\<rfloor> < length (currentBoard t)" "currentBoard t ! nat \<lfloor>q\<rfloor> = None"
      by blast
    let ?nb = "(currentBoard t)[nat \<lfloor>q\<rfloor> := Some MarkO]"
    show ?thesis
    proof (cases "if moveDifficulty t = Hard \<or> moveDifficulty t = Trained
                  then getAICommentary env ?nb q else Inr []")
      case (Inl e)
      then show ?thesis using Inr True q(1)
        by (simp add: aiMove_resume_def Let_def)
    next
      case (Inr commentary)
      then have "board (aiMove_resume env t s) = ?nb \<and>
                 moveHistory (aiMove_resume env t s) = moveHistory s @ [nat \<lfloor>q\<rfloor>] \<and>
                 isPlayerTurn (aiMove_resume env t s)"
        using \<open>selectMove env t = Inr mv\<close> True q(1)
        by (simp add: aiMove_resume_def Let_def checkGameStatus_frame)
      then show ?thesis using q(2,3) by blast
    qed
  qed
qed

lemma marks_kept_same: "marks_kept b b"
  by (auto simp: marks_kept_def list_all_length nth_enumerate_eq elem_def)

lemma marks_kept_update: "i < length b \<Longrightarrow> b ! i = None \<Longrightarrow> marks_kept b (b[i := v])"
  by (auto simp: marks_kept_def list_all_length nth_enumerate_eq elem_def nth_list_update)

text \<open>
  One event, not a restart during a suspended AI move, keeps the configuration in
  step; unless it restarts the game, it keeps every mark of the board.
\<close>

lemma exec_in_step:
  assumes inv: "in_step c" and ok: "restarts_game e \<Longrightarrow> pending c = []"
  shows "in_step (exec e c) \<and>
         (restarts_game e \<or> marks_kept (board (game c)) (board (game (exec e c))))"
proof -
  let ?s = "game c"
  from inv have len: "length (board ?s) = 9" and hrb: "history_records_board ?s"
    and even_turn: "isPlayerTurn ?s \<Longrightarrow> even (length (moveHistory ?s))"
    and pend: "pending c = [] \<or>
       (\<exists>t. pending c = [t] \<and> currentBoard t = board ?s \<and>
            \<not> isPlayerTurn ?s \<and> odd (length (moveHistory ?s)))"
    by (simp_all add: in_step_def split: if_splits)
  have flag: "in_step (c\<lparr>game := s'\<rparr>)"
    if "board s' = board ?s" "moveHistory s' = moveHistory ?s" "isPlayerTurn s' = isPlayerTurn ?s"
    for s'
    using inv that history_records_board_cong[OF that(1,2)] by (simp add: in_step_def)
  show ?thesis
  proof (cases e)
    case (Click i)
    show ?thesis
    proof (cases "i < length (board ?s) \<and> handleCellClick i ?s \<noteq> ?s")
      case False
      then have "exec e c = c"
        unfolding Click by (auto simp: exec.simps useEffect_aiMove_same)
      then show ?thesis using inv by (simp add: marks_kept_same)
    next
      case True
      let ?s' = "handleCellClick i ?s"
      from True handleCellClick_result[of i ?s]
      have turn: "isPlayerTurn ?s" and free: "\<not> truthy (elem (board ?s) i)"
        and b': "board ?s' = (board ?s)[i := Some MarkX]"
        and h': "moveHistory ?s' = moveHistory ?s @ [i]"
        and turn': "\<not> isPlayerTurn ?s'"
        by blast+
      from True free have cell: "board ?s ! i = None" by (simp add: empty_cell)
      have i9: "i < 9" using True len by simp
      have nopend: "pending c = []" using pend turn by blast
      have p: "MarkX = (if even (length (moveHistory ?s)) then MarkX else MarkO)"
        using even_turn[OF turn] by simp
      have hrb': "history_records_board ?s'"
        using history_extend[OF hrb i9 _ cell p, of ?s'] True b' h' by simp
      have ex: "exec e c = useEffect_aiMove ?s (c\<lparr>game := ?s'\<rparr>)"
        unfolding Click using True by (simp add: exec.simps)
      have "in_step (useEffect_aiMove ?s (c\<lparr>game := ?s'\<rparr>))"
        using len hrb' turn' nopend even_turn[OF turn] b' h'
        by (intro useEffect_aiMove_in_step) simp_all
      moreover have "marks_kept (board ?s) (board (game (exec e c)))"
        unfolding ex using True cell b' by (simp add: useEffect_aiMove_result marks_kept_update)
      ultimately show ?thesis using ex by simp
    qed
  next
    case Restart
    have "pending c = []" using ok Restart by simp
    then have "in_step (exec e c)"
      unfolding Restart exec.simps
      by (intro useEffect_aiMove_in_step)
         (simp_all add: restartGame_def history_records_board_def)
    then show ?thesis using Restart by simp
  next
    case (ChooseDifficulty level)
    have "pending c = []" using ok ChooseDifficulty by simp
    then have "in_step (exec e c)"
      unfolding ChooseDifficulty exec.simps
      by (intro useEffect_aiMove_in_step)
         (simp_all add: restartGame_def history_records_board_def)
    then show ?thesis using ChooseDifficulty by simp
  next
    case OpenDifficultyDialog
    have "exec e c = c\<lparr>game := ?s\<lparr>isDifficultyModalOpen := True\<rparr>\<rparr>"
      unfolding OpenDifficultyDialog exec.simps by (rule useEffect_aiMove_same_deps) simp_all
    then show ?thesis using flag[of "?s\<lparr>isDifficultyModalOpen := True\<rparr>"]
      by (simp add: marks_kept_same)
  next
    case CloseDifficultyDialog
    have "exec e c = c\<lparr>game := ?s\<lparr>isDifficultyModalOpen := False\<rparr>\<rparr>"
      unfolding CloseDifficultyDialog exec.simps by (rule useEffect_aiMove_same_deps) simp_all
    then show ?thesis using flag[of "?s\<lparr>isDifficultyModalOpen := False\<rparr>"]
      by (simp add: marks_kept_same)
  next
    case ToggleDarkMode
    have "exec e c = c\<lparr>game := ?s\<lparr>isDarkMode := \<not> isDarkMode ?s\<rparr>\<rparr>"
      unfolding ToggleDarkMode exec.simps by (rule useEffect_aiMove_same_deps) simp_all
    then show ?thesis using flag[of "?s\<lparr>isDarkMode := \<not> isDarkMode ?s\<rparr>"]
      by (simp add: marks_kept_same)
  next
    case (AiMoveResumes k env)
    show ?thesis
    proof (cases "k < length (pending c)")
      case False
      then have "exec e c = c" unfolding AiMoveResumes by (simp add: exec.simps)
      then show ?thesis using inv by (simp add: marks_kept_same)
    next
      case True
      with pend obtain t where t: "pending c = [t]" "currentBoard t = board ?s"
        "\<not> isPlayerTurn ?s" "odd (length (moveHistory ?s))"
        by auto
      with True have k0: "k = 0" by simp
      let ?s' = "aiMove_resume env t ?s"
      let ?c' = "c\<lparr>game := ?s', pending := []\<rparr>"
      have ex: "exec e c = useEffect_aiMove ?s ?c'"
        unfolding AiMoveResumes using True t(1) k0 by (simp add: exec.simps)
      from aiMove_resume_result[of env t ?s]
      have "in_step (useEffect_aiMove ?s ?c') \<and> marks_kept (board ?s) (board ?s')"
      proof (elim disjE conjE exE)
        assume same: "board ?s' = board ?s" "moveHistory ?s' = moveHistory ?s"
          "isPlayerTurn ?s' = isPlayerTurn ?s"
        have "in_step (useEffect_aiMove ?s ?c')"
          using len hrb t(3,4) same history_records_board_cong[OF same(1,2)]
          by (intro useEffect_aiMove_in_step) simp_all
        then show ?thesis using same(1) by (simp add: marks_kept_same)
      next
        fix m
        assume m: "m < length (currentBoard t)" "currentBoard t ! m = None"
          and b': "board ?s' = (currentBoard t)[m := Some MarkO]"
          and h': "moveHistory ?s' = moveHistory ?s @ [m]"
          and turn': "isPlayerTurn ?s'"
        have m9: "m < 9" using m(1) t(2) len by simp
        have p: "MarkO = (if even (length (moveHistory ?s)) then MarkX else MarkO)"
          using t(4) by simp
        have hrb': "history_records_board ?s'"
          using history_extend[OF hrb m9 _ _ p, of ?s'] m b' h' t(2) by simp
        have "in_step (useEffect_aiMove ?s ?c')"
          using len hrb' turn' t(4) b' h' t(2)
          by (intro useEffect_aiMove_in_step) simp_all
        moreover have "marks_kept (board ?s) (board ?s')"
          using m b' t(2) by (simp add: marks_kept_update)
        ultimately show ?thesis by simp
      qed
      then show ?thesis unfolding ex by (simp add: useEffect_aiMove_result)
    qed
  qed
qed

lemma in_step_start: "in_step (startConfig d sc played dark)"
  by (simp add: in_step_def startConfig_def initialGame_def history_records_board_def)

lemma race_free_in_step:
  "in_step c \<Longrightarrow> race_free es c \<Longrightarrow> in_step (run es c)"
proof (induction es arbitrary: c)
  case Nil
  then show ?case by (simp add: run.simps)
next
  case (Cons e es)
  from Cons.prems(2) have ok: "restarts_game e \<Longrightarrow> pending c = []" and rest: "race_free es (exec e c)"
    by (simp_all split: if_splits)
  from exec_in_step[OF Cons.prems(1) ok] have "in_step (exec e c)" by blast
  from Cons.IH[OF this rest] show ?case by (simp add: run.simps)
qed

text \<open>
  In every run from the start that never restarts the game during a suspended AI
  move, the history records the board, and an event that is not a restart keeps every
  mark of the board. The two failures above need such a restart.
\<close>

lemma race_free_history_records_board:
  assumes "race_free es (startConfig d sc played dark)"
  shows "history_records_board (game (run es (startConfig d sc played dark)))"
  using race_free_in_step[OF in_step_start assms] by (simp add: in_step_def)

lemma race_free_marks_kept:
  assumes "race_free (es @ [e]) (startConfig d sc played dark)" "\<not> restarts_game e"
  shows "marks_kept (board (game (run es (startConfig d sc played dark))))
                    (board (game (run (es @ [e]) (startConfig d sc played dark))))"
proof -
  have split: "race_free (es @ [e]) c \<Longrightarrow> race_free es c" for c
    by (induction es arbitrary: c) (simp_all split: if_splits)
  from race_free_in_step[OF in_step_start split[OF assms(1)]]
  have "in_step (run es (startConfig d sc played dark))" .
  from exec_in_step[OF this, of e] assms(2) show ?thesis by (simp add: run_last)
qed

end
